theory Spec2Isabelle
  imports Main "HOL-Library.Sublist"
begin

section \<open>Python strings and values\<close>

text \<open>
  A Python \<open>str\<close> is a sequence of Unicode code points; it is modelled as a list of
  natural numbers, one per code point.  \<open>str\<close> turns an ASCII literal of the source
  into such a list.
\<close>

type_synonym pystr = "nat list"

definition str :: "string \<Rightarrow> pystr" where
  "str s = map of_char s"

text \<open>
  \<open>str.strip()\<close> without argument removes leading and trailing characters for which
  \<open>str.isspace\<close> holds: the Unicode white space code points listed here.
\<close>

definition isspace :: "nat \<Rightarrow> bool" where
  "isspace c \<longleftrightarrow>
     (0x09 \<le> c \<and> c \<le> 0x0D) \<or> (0x1C \<le> c \<and> c \<le> 0x20) \<or> c = 0x85 \<or> c = 0xA0 \<or>
     c = 0x1680 \<or> (0x2000 \<le> c \<and> c \<le> 0x200A) \<or> c = 0x2028 \<or> c = 0x2029 \<or>
     c = 0x202F \<or> c = 0x205F \<or> c = 0x3000"

definition strip :: "pystr \<Rightarrow> pystr" where
  "strip s = rev (dropWhile isspace (rev (dropWhile isspace s)))"

text \<open>
  The values that \<open>json.loads\<close> returns and that \<open>os.getenv\<close> hands to the browser
  driver: \<open>None\<close>, booleans, integers, floats (kept as their literal), strings, lists
  and dictionaries (in insertion order, one entry per key).
\<close>

datatype pyval =
    PyNone
  | PyBool bool
  | PyInt int
  | PyFloat pystr
  | PyStr pystr
  | PyList "pyval list"
  | PyDict "(pystr \<times> pyval) list"

text \<open>
  The exceptions that occur.  \<open>ValueError\<close> carries its message where the source
  builds one; \<open>ValueError_int\<close> is the \<open>ValueError\<close> of \<open>int()\<close> on the string it
  carries, \<open>ValueError_sleep\<close> the one of \<open>time.sleep\<close> on a negative length.
  \<open>HTTPError\<close> and every other error of the \<open>requests\<close> library are
  \<open>RequestException\<close>s; \<open>OtherException\<close> stands for any exception that is not.
\<close>

datatype exn =
    ValueError string
  | ValueError_int pystr
  | ValueError_sleep
  | OverflowError
  | JSONDecodeError
  | KeyError pystr
  | TypeError
  | RecursionError
  | TimeoutException
  | WebDriverException
  | HTTPError
  | RequestException
  | OtherException

section \<open>The standard library's \<open>json.loads\<close>\<close>

text \<open>
  \<open>post_content_to_platform\<close> parses the fetched text with \<open>json.loads\<close>.  The decoder
  is modelled after the library's scanner: \<open>scanstring\<close> for string literals (strict
  mode), the number pattern, \<open>JSONObject\<close> and \<open>JSONArray\<close> for the two containers and
  \<open>scan_once\<close> choosing between them on the next character.  The functions take the
  text that remains to be read and return the value with the text after it.
\<close>

definition json_ws :: "nat \<Rightarrow> bool" where
  "json_ws c \<longleftrightarrow> c = 0x20 \<or> c = 0x09 \<or> c = 0x0A \<or> c = 0x0D"

definition skip_ws :: "pystr \<Rightarrow> pystr" where
  "skip_ws s = dropWhile json_ws s"

definition isdigit :: "nat \<Rightarrow> bool" where
  "isdigit c \<longleftrightarrow> 0x30 \<le> c \<and> c \<le> 0x39"

definition hexval :: "nat \<Rightarrow> nat option" where
  "hexval c =
     (if 0x30 \<le> c \<and> c \<le> 0x39 then Some (c - 0x30)
      else if 0x61 \<le> c \<and> c \<le> 0x66 then Some (c - 0x61 + 10)
      else if 0x41 \<le> c \<and> c \<le> 0x46 then Some (c - 0x41 + 10)
      else None)"

fun decode_uXXXX :: "pystr \<Rightarrow> nat option" where
  "decode_uXXXX (a # b # c # d # r) =
     (case (hexval a, hexval b, hexval c, hexval d) of
        (Some x, Some y, Some z, Some w) \<Rightarrow> Some (((x * 16 + y) * 16 + z) * 16 + w)
      | _ \<Rightarrow> None)"
| "decode_uXXXX s = None"

text \<open>The table \<open>BACKSLASH\<close> of the one-character escapes.\<close>

definition BACKSLASH :: "nat \<Rightarrow> nat option" where
  "BACKSLASH e =
     (if e = 0x22 then Some 0x22
      else if e = 0x5C then Some 0x5C
      else if e = 0x2F then Some 0x2F
      else if e = 0x62 then Some 0x08
      else if e = 0x66 then Some 0x0C
      else if e = 0x6E then Some 0x0A
      else if e = 0x72 then Some 0x0D
      else if e = 0x74 then Some 0x09
      else None)"

text \<open>
  \<open>scanstring s acc\<close> reads a string literal whose opening quote has been consumed;
  \<open>acc\<close> holds the characters decoded so far.  \<open>None\<close> is a \<open>JSONDecodeError\<close>
  (unterminated string, control character, invalid escape).
\<close>

fun scanstring :: "pystr \<Rightarrow> pystr \<Rightarrow> (pystr \<times> pystr) option" where
  "scanstring [] acc = None"
| "scanstring (c # cs) acc =
     (if c = 0x22 then Some (acc, cs)
      else if c = 0x5C then
        (case cs of
           [] \<Rightarrow> None
         | e # r \<Rightarrow>
             if e = 0x75 then
               (case decode_uXXXX r of
                  None \<Rightarrow> None
                | Some uni \<Rightarrow>
                    if 0xD800 \<le> uni \<and> uni \<le> 0xDBFF \<and> take 2 (drop 4 r) = [0x5C, 0x75] then
                      (case decode_uXXXX (drop 6 r) of
                         None \<Rightarrow> None
                       | Some uni2 \<Rightarrow>
                           if 0xDC00 \<le> uni2 \<and> uni2 \<le> 0xDFFF
                           then scanstring (drop 10 r)
                                  (acc @ [0x10000 + (uni - 0xD800) * 0x400 + (uni2 - 0xDC00)])
                           else scanstring (drop 4 r) (acc @ [uni]))
                    else scanstring (drop 4 r) (acc @ [uni]))
             else
               (case BACKSLASH e of
                  None \<Rightarrow> None
                | Some ch \<Rightarrow> scanstring r (acc @ [ch])))
      else if c < 0x20 then None
      else scanstring cs (acc @ [c]))"

text \<open>
  The number pattern \<open>(-?(?:0|[1-9][0-9]*))(\.[0-9]+)?([eE][-+]?[0-9]+)?\<close>: an integer
  part, an optional fraction and an optional exponent.  Without fraction and exponent
  the value is an \<open>int\<close>, otherwise a \<open>float\<close>, kept as its literal.
\<close>

definition digits_val :: "pystr \<Rightarrow> int" where
  "digits_val ds = foldl (\<lambda>a d. a * 10 + (int d - 0x30)) 0 ds"

definition match_exponent :: "pystr \<Rightarrow> pystr" where
  "match_exponent s =
     (case s of
        [] \<Rightarrow> []
      | e # r \<Rightarrow>
          if e = 0x65 \<or> e = 0x45 then
            (let sg = (case r of [] \<Rightarrow> [] | g # r' \<Rightarrow> if g = 0x2D \<or> g = 0x2B then [g] else []);
                 ed = takeWhile isdigit (drop (length sg) r)
             in if ed = [] then [] else e # sg @ ed)
          else [])"

definition match_fraction :: "pystr \<Rightarrow> pystr" where
  "match_fraction s =
     (case s of
        [] \<Rightarrow> []
      | p # r \<Rightarrow>
          if p = 0x2E \<and> takeWhile isdigit r \<noteq> [] then p # takeWhile isdigit r else [])"

definition match_integer :: "pystr \<Rightarrow> pystr" where
  "match_integer s =
     (case s of
        [] \<Rightarrow> []
      | d # r \<Rightarrow> if d = 0x30 then [d] else takeWhile isdigit s)"

definition match_number :: "pystr \<Rightarrow> (pyval \<times> pystr) option" where
  "match_number s =
     (let sign = (case s of [] \<Rightarrow> [] | c # r \<Rightarrow> if c = 0x2D then [c] else []);
          s1 = drop (length sign) s;
          ip = match_integer s1
      in if ip = [] then None
         else
           (let s2 = drop (length ip) s1;
                frac = match_fraction s2;
                s3 = drop (length frac) s2;
                ex = match_exponent s3;
                s4 = drop (length ex) s3
            in if frac = [] \<and> ex = []
               then Some (PyInt (if sign = [] then digits_val ip else - digits_val ip), s4)
               else Some (PyFloat (sign @ ip @ frac @ ex), s4)))"

text \<open>\<open>d[k] = v\<close> on a dictionary: a key already present keeps its place.\<close>

fun dict_set :: "(pystr \<times> pyval) list \<Rightarrow> pystr \<Rightarrow> pyval \<Rightarrow> (pystr \<times> pyval) list" where
  "dict_set [] k v = [(k, v)]"
| "dict_set ((k', v') # kvs) k v =
     (if k' = k then (k, v) # kvs else (k', v') # dict_set kvs k v)"

text \<open>
  The scanner.  Its recursion follows the nesting of the text and is not structural, so
  the functions count down a budget of calls; \<open>OutOfFuel\<close> says the budget was too
  small, and \<open>json_loads\<close> below gives a budget that never is.  \<open>Fail\<close> is a
  \<open>JSONDecodeError\<close>.  \<open>JSONObject\<close> is entered after the opening quote of a key,
  \<open>JSONArray\<close> at the first character of an element.
\<close>

datatype 'a scan = Ok 'a pystr | Fail | OutOfFuel

fun scan_once :: "nat \<Rightarrow> pystr \<Rightarrow> pyval scan"
  and JSONObject :: "nat \<Rightarrow> pystr \<Rightarrow> (pystr \<times> pyval) list \<Rightarrow> pyval scan"
  and JSONArray :: "nat \<Rightarrow> pystr \<Rightarrow> pyval list \<Rightarrow> pyval scan"
where
  "scan_once 0 s = OutOfFuel"
| "scan_once (Suc n) s =
     (case s of
        [] \<Rightarrow> Fail
      | c # cs \<Rightarrow>
          if c = 0x22 then
            (case scanstring cs [] of None \<Rightarrow> Fail | Some (x, r) \<Rightarrow> Ok (PyStr x) r)
          else if c = 0x7B then
            (case skip_ws cs of
               [] \<Rightarrow> Fail
             | d # r \<Rightarrow>
                 if d = 0x7D then Ok (PyDict []) r
                 else if d = 0x22 then JSONObject n r []
                 else Fail)
          else if c = 0x5B then
            (case skip_ws cs of
               [] \<Rightarrow> Fail
             | d # r \<Rightarrow> if d = 0x5D then Ok (PyList []) r else JSONArray n (d # r) [])
          else if take 4 s = str ''null'' then Ok PyNone (drop 4 s)
          else if take 4 s = str ''true'' then Ok (PyBool True) (drop 4 s)
          else if take 5 s = str ''false'' then Ok (PyBool False) (drop 5 s)
          else
            (case match_number s of
               Some (v, r) \<Rightarrow> Ok v r
             | None \<Rightarrow>
                 if take 3 s = str ''NaN'' then Ok (PyFloat (str ''NaN'')) (drop 3 s)
                 else if take 8 s = str ''Infinity''
                   then Ok (PyFloat (str ''Infinity'')) (drop 8 s)
                 else if take 9 s = str ''-Infinity''
                   then Ok (PyFloat (str ''-Infinity'')) (drop 9 s)
                 else Fail))"
| "JSONObject 0 s pairs = OutOfFuel"
| "JSONObject (Suc n) s pairs =
     (case scanstring s [] of
        None \<Rightarrow> Fail
      | Some (key, r) \<Rightarrow>
          (case skip_ws r of
             [] \<Rightarrow> Fail
           | c # r2 \<Rightarrow>
               if c \<noteq> 0x3A then Fail
               else
                 (case scan_once n (skip_ws r2) of
                    Fail \<Rightarrow> Fail
                  | OutOfFuel \<Rightarrow> OutOfFuel
                  | Ok v r4 \<Rightarrow>
                      (case skip_ws r4 of
                         [] \<Rightarrow> Fail
                       | d # r6 \<Rightarrow>
                           if d = 0x7D then Ok (PyDict (dict_set pairs key v)) r6
                           else if d = 0x2C then
                             (case skip_ws r6 of
                                [] \<Rightarrow> Fail
                              | q # r8 \<Rightarrow>
                                  if q = 0x22 then JSONObject n r8 (dict_set pairs key v)
                                  else Fail)
                           else Fail))))"
| "JSONArray 0 s vals = OutOfFuel"
| "JSONArray (Suc n) s vals =
     (case scan_once n s of
        Fail \<Rightarrow> Fail
      | OutOfFuel \<Rightarrow> OutOfFuel
      | Ok v r \<Rightarrow>
          (case skip_ws r of
             [] \<Rightarrow> Fail
           | d # r2 \<Rightarrow>
               if d = 0x5D then Ok (PyList (vals @ [v])) r2
               else if d = 0x2C then JSONArray n (skip_ws r2) (vals @ [v])
               else Fail))"

text \<open>
  \<open>json.loads\<close>: white space, one value, white space, end of text.  A text of \<open>n\<close>
  characters needs fewer than \<open>2 * n + 1\<close> calls (lemma \<open>json_loads_budget\<close>).
\<close>

definition json_loads :: "pystr \<Rightarrow> exn + pyval" where
  "json_loads s =
     (case scan_once (2 * length s + 1) (skip_ws s) of
        Ok v r \<Rightarrow> if skip_ws r = [] then Inr v else Inl JSONDecodeError
      | Fail \<Rightarrow> Inl JSONDecodeError
      | OutOfFuel \<Rightarrow> Inl RecursionError)"

text \<open>
  \<open>obj[key]\<close>: \<open>KeyError\<close> on a dictionary without the key, \<open>TypeError\<close> on a value
  that is not a dictionary (a list, a string, a number, \<open>None\<close>) with a string index.
\<close>

fun dict_get :: "(pystr \<times> pyval) list \<Rightarrow> pystr \<Rightarrow> pyval option" where
  "dict_get [] k = None"
| "dict_get ((k', v) # kvs) k = (if k' = k then Some v else dict_get kvs k)"

definition getitem :: "pyval \<Rightarrow> pystr \<Rightarrow> exn + pyval" where
  "getitem obj key =
     (case obj of
        PyDict kvs \<Rightarrow> (case dict_get kvs key of None \<Rightarrow> Inl (KeyError key) | Some v \<Rightarrow> Inr v)
      | _ \<Rightarrow> Inl TypeError)"

section \<open>The browser, the HTTP client and the state of a poster\<close>

text \<open>
  The page elements the program looks up, each with the locator of the source
  (\<open>By.ID\<close> or \<open>By.XPATH\<close> and its value).
\<close>

datatype element =
    LoginAccountName
  | LoginAccountPassword
  | LoginButton
  | LoginMarker
  | NewTopicButton
  | TitleInput
  | CategoryDropdown
  | SRFCOption
  | BodyInput
  | CreateTopicButton

fun locator :: "element \<Rightarrow> string \<times> string" where
  "locator LoginAccountName = (''id'', ''login-account-name'')"
| "locator LoginAccountPassword = (''id'', ''login-account-password'')"
| "locator LoginButton = (''id'', ''login-button'')"
| "locator LoginMarker = (''xpath'',
     ''/html/body/section/div[1]/div[3]/div[2]/div[4]/div[2]/div/div/div/div/div[1]/table/tbody/tr[1]/td[1]/h3/a/div'')"
| "locator NewTopicButton = (''xpath'', ''//span[contains(text(), 'New Topic')]'')"
| "locator TitleInput = (''xpath'',
     ''//input[@aria-label='What is this discussion about in one brief sentence?']'')"
| "locator CategoryDropdown = (''xpath'', ''//*[@id='ember97-header']/div/div/span/span/span/span'')"
| "locator SRFCOption = (''xpath'', ''//*[@id='ember97-body']/ul/div[1]'')"
| "locator BodyInput = (''xpath'',
     ''//textarea[@aria-label='Type here. Use Markdown, BBCode, or HTML to format. Drag or paste images.']'')"
| "locator CreateTopicButton = (''xpath'', ''//*[@id='reply-control']/div[3]/div[3]/div[1]/button'')"

text \<open>
  The expected conditions of \<open>WebDriverWait(...).until\<close> and the calls the program
  makes on the outside world: on the browser driver, on the HTTP session and on the
  clock.  \<open>Wait c e t\<close> is \<open>WebDriverWait(driver, t).until(c(locator e))\<close>.
\<close>

datatype condition = Visibility | Clickable | Presence

datatype action =
    Mkdtemp
  | Launch
  | Get pyval
  | Wait condition element nat
  | SendKeys element pyval
  | Clear element
  | Click element
  | GetCookies
  | HttpGet pyval
  | Sleep int

text \<open>
  A trace lists the calls made so far, oldest first, each with its outcome: \<open>True\<close>
  when the call returned, \<open>False\<close> when it raised.
\<close>

type_synonym event = "action \<times> bool"

record cookie =
  cookie_name :: pystr
  cookie_value :: pystr
  cookie_domain :: pystr

text \<open>
  The cookie jar of \<open>requests.Session\<close> maps a domain and a name to a value (the path
  is always the default one here); the jar is false in a condition when it has no entry.
\<close>

type_synonym cookiejar = "((pystr \<times> pystr) \<times> pystr) list"

fun jar_set :: "cookiejar \<Rightarrow> (pystr \<times> pystr) \<Rightarrow> pystr \<Rightarrow> cookiejar" where
  "jar_set [] k v = [(k, v)]"
| "jar_set ((k', v') # j) k v = (if k' = k then (k, v) # j else (k', v') # jar_set j k v)"

datatype http_outcome =
    Response nat pystr
  | RaisesRequestException
  | RaisesOther

text \<open>
  Everything the program does not decide itself is a parameter: whether a call on the
  browser returns or raises, which cookies the browser holds, what the HTTP session
  answers to a GET (an outcome and the jar after the exchange), and the built-in
  \<open>int\<close> on strings (\<open>None\<close> where it raises \<open>ValueError\<close>).  Each may depend on
  all that happened before.
\<close>

record world =
  succeeds :: "event list \<Rightarrow> action \<Rightarrow> bool"
  browser_cookies :: "event list \<Rightarrow> cookie list"
  http_response :: "event list \<Rightarrow> pyval \<Rightarrow> cookiejar \<Rightarrow> cookiejar \<times> http_outcome"
  int_of_str :: "pystr \<Rightarrow> int option"

text \<open>The state of a \<open>ContentPoster\<close>: the trace and \<open>self.session.cookies\<close>.\<close>

record state =
  trace :: "event list"
  cookies :: cookiejar

type_synonym env = "string \<Rightarrow> pystr option"

text \<open>
  A statement of the program takes the state and returns the new state with either
  its value or the exception it raised.
\<close>

type_synonym 'a prog = "state \<Rightarrow> (exn + 'a) \<times> state"

definition return :: "'a \<Rightarrow> 'a prog" where
  "return x st = (Inr x, st)"

definition lift :: "exn + 'a \<Rightarrow> 'a prog" where
  "lift r st = (r, st)"

definition andthen :: "'a prog \<Rightarrow> ('a \<Rightarrow> 'b prog) \<Rightarrow> 'b prog" where
  "andthen m f st = (case m st of (Inl e, st') \<Rightarrow> (Inl e, st') | (Inr x, st') \<Rightarrow> f x st')"

definition seq :: "'a prog \<Rightarrow> 'b prog \<Rightarrow> 'b prog" where
  "seq m k = andthen m (\<lambda>x. k)"

text \<open>\<open>try: ... except Exception: return False\<close>: every exception of \<open>exn\<close> is one.\<close>

definition except_Exception :: "bool prog \<Rightarrow> bool prog" where
  "except_Exception m st = (case m st of (Inl e, st') \<Rightarrow> (Inr False, st') | (Inr b, st') \<Rightarrow> (Inr b, st'))"

fun isinstance_RequestException :: "exn \<Rightarrow> bool" where
  "isinstance_RequestException RequestException = True"
| "isinstance_RequestException HTTPError = True"
| "isinstance_RequestException e = False"

text \<open>\<open>try: ... except requests.RequestException: return None\<close>.\<close>

definition except_RequestException :: "pystr option prog \<Rightarrow> pystr option prog" where
  "except_RequestException m st =
     (case m st of
        (Inl e, st') \<Rightarrow> if isinstance_RequestException e then (Inr None, st') else (Inl e, st')
      | (Inr x, st') \<Rightarrow> (Inr x, st'))"

text \<open>
  A call on the browser driver is recorded with its outcome; a wait that fails raises
  \<open>TimeoutException\<close>, any other call a \<open>WebDriverException\<close>.
\<close>

fun raised_by :: "action \<Rightarrow> exn" where
  "raised_by (Wait c e t) = TimeoutException"
| "raised_by a = WebDriverException"

definition call :: "world \<Rightarrow> action \<Rightarrow> unit prog" where
  "call w a st =
     (if succeeds w (trace st) a
      then (Inr (), st\<lparr>trace := trace st @ [(a, True)]\<rparr>)
      else (Inl (raised_by a), st\<lparr>trace := trace st @ [(a, False)]\<rparr>))"

definition get_cookies :: "world \<Rightarrow> cookie list prog" where
  "get_cookies w st =
     (if succeeds w (trace st) GetCookies
      then (Inr (browser_cookies w (trace st)), st\<lparr>trace := trace st @ [(GetCookies, True)]\<rparr>)
      else (Inl WebDriverException, st\<lparr>trace := trace st @ [(GetCookies, False)]\<rparr>))"

text \<open>\<open>for cookie in cookies: self.session.cookies.set(name, value, domain=domain)\<close>.\<close>

definition store_cookies :: "cookie list \<Rightarrow> unit prog" where
  "store_cookies cs st =
     (Inr (), st\<lparr>cookies :=
        foldl (\<lambda>j c. jar_set j (cookie_domain c, cookie_name c) (cookie_value c)) (cookies st) cs\<rparr>)"

text \<open>\<open>self.session.get(url, timeout=2000)\<close>.\<close>

definition session_get :: "world \<Rightarrow> pyval \<Rightarrow> (nat \<times> pystr) prog" where
  "session_get w url st =
     (case http_response w (trace st) url (cookies st) of
        (j, Response status text) \<Rightarrow>
          (Inr (status, text), \<lparr>trace = trace st @ [(HttpGet url, True)], cookies = j\<rparr>)
      | (j, RaisesRequestException) \<Rightarrow>
          (Inl RequestException, \<lparr>trace = trace st @ [(HttpGet url, False)], cookies = j\<rparr>)
      | (j, RaisesOther) \<Rightarrow>
          (Inl OtherException, \<lparr>trace = trace st @ [(HttpGet url, False)], cookies = j\<rparr>))"

text \<open>\<open>response.raise_for_status()\<close> raises \<open>HTTPError\<close> on a 4xx or 5xx status.\<close>

definition raise_for_status :: "nat \<Rightarrow> exn + unit" where
  "raise_for_status status = (if 400 \<le> status \<and> status < 600 then Inl HTTPError else Inr ())"

text \<open>
  \<open>time.sleep(secs)\<close> on an integer: \<open>OverflowError\<close> when the length in nanoseconds
  does not fit 64 bits, \<open>ValueError\<close> when it is negative.
\<close>

definition time_sleep :: "int \<Rightarrow> unit prog" where
  "time_sleep secs st =
     (if secs * 10 ^ 9 > 2 ^ 63 - 1 \<or> secs * 10 ^ 9 < - (2 ^ 63) then (Inl OverflowError, st)
      else if secs < 0 then (Inl ValueError_sleep, st)
      else (Inr (), st\<lparr>trace := trace st @ [(Sleep secs, True)]\<rparr>))"

text \<open>\<open>os.getenv\<close> gives a string or \<open>None\<close>; both are false in a condition when empty.\<close>

definition truthy :: "pystr option \<Rightarrow> bool" where
  "truthy v = (case v of None \<Rightarrow> False | Some s \<Rightarrow> s \<noteq> [])"

definition py :: "pystr option \<Rightarrow> pyval" where
  "py v = (case v of None \<Rightarrow> PyNone | Some s \<Rightarrow> PyStr s)"

section \<open>\<open>ContentPoster\<close>\<close>

definition required_vars :: "string list" where
  "required_vars =
     [''GENERATION_ENDPOINT'', ''PLATFORM_POST_URL'', ''LOGIN_URL'', ''EMAIL'', ''PASSWORD'']"

fun join :: "string \<Rightarrow> string list \<Rightarrow> string" where
  "join sep [] = []"
| "join sep [x] = x"
| "join sep (x # y # ys) = x @ sep @ join sep (y # ys)"

definition validate_env_vars :: "env \<Rightarrow> exn + unit" where
  "validate_env_vars env =
     (let missing_vars = filter (\<lambda>var. \<not> truthy (env var)) required_vars
      in if missing_vars \<noteq> []
         then Inl (ValueError (''Missing required environment variables: '' @ join '', '' missing_vars))
         else Inr ())"

text \<open>
  \<open>__init__\<close>: the environment is validated, the profile directory made and the
  browser launched (a failure is logged and raised again); the session starts without
  cookies.  \<open>env\<close> is the environment after \<open>load_dotenv()\<close>.
\<close>

definition init_state :: state where
  "init_state = \<lparr>trace = [], cookies = []\<rparr>"

definition ContentPoster :: "world \<Rightarrow> env \<Rightarrow> unit prog" where
  "ContentPoster w env =
     seq (lift (validate_env_vars env))
    (seq (call w Mkdtemp)
    (seq (call w Launch)
         (\<lambda>st. (Inr (), st\<lparr>cookies := []\<rparr>))))"

definition login :: "world \<Rightarrow> env \<Rightarrow> bool prog" where
  "login w env =
     except_Exception
       (seq (call w (Get (py (env ''LOGIN_URL''))))
       (seq (call w (Wait Visibility LoginAccountName 10))
       (seq (call w (Wait Visibility LoginAccountPassword 10))
       (seq (call w (Wait Clickable LoginButton 10))
       (seq (call w (SendKeys LoginAccountName (py (env ''EMAIL''))))
       (seq (call w (SendKeys LoginAccountPassword (py (env ''PASSWORD''))))
       (seq (call w (Click LoginButton))
       (seq (call w (Wait Presence LoginMarker 10))
       (andthen (get_cookies w) (\<lambda>cookies.
        seq (store_cookies cookies)
            (return True)))))))))))"

definition fetch_content :: "world \<Rightarrow> env \<Rightarrow> pystr option prog" where
  "fetch_content w env =
     except_RequestException
       (andthen (session_get w (py (env ''GENERATION_ENDPOINT''))) (\<lambda>(status, text).
        seq (lift (raise_for_status status))
            (let content = strip text
             in if content = [] then return None else return (Some content))))"

definition post_content_to_platform :: "world \<Rightarrow> env \<Rightarrow> pystr \<Rightarrow> bool prog" where
  "post_content_to_platform w env content st =
     (if cookies st = [] then (Inr False, st)
      else
        except_Exception
          (seq (call w (Get (py (env ''PLATFORM_POST_URL''))))
          (seq (call w (Wait Clickable NewTopicButton 10))
          (seq (call w (Click NewTopicButton))
          (seq (call w (Wait Visibility TitleInput 10))
          (andthen (lift (json_loads content)) (\<lambda>content_data.
           seq (lift (getitem content_data (str ''topic'')))
          (seq (lift (getitem content_data (str ''forumPost'')))
          (seq (call w (Clear TitleInput))
          (andthen (lift (getitem content_data (str ''topic''))) (\<lambda>topic.
           seq (call w (SendKeys TitleInput topic))
          (seq (call w (Wait Visibility CategoryDropdown 10))
          (seq (call w (Click CategoryDropdown))
          (seq (call w (Wait Visibility SRFCOption 10))
          (seq (call w (Click SRFCOption))
          (seq (call w (Wait Visibility BodyInput 300))
          (seq (call w (Clear BodyInput))
          (andthen (lift (getitem content_data (str ''forumPost''))) (\<lambda>forumPost.
           seq (call w (SendKeys BodyInput forumPost))
          (seq (call w (Wait Clickable CreateTopicButton 10))
          (seq (call w (Click CreateTopicButton))
               (return True)))))))))))))))))))))
          st)"

definition run :: "world \<Rightarrow> env \<Rightarrow> bool prog" where
  "run w env =
     andthen (login w env) (\<lambda>logged_in.
       if \<not> logged_in then return False
       else
         andthen (fetch_content w env) (\<lambda>content.
           if \<not> truthy content then return False
           else
             andthen (post_content_to_platform w env (the content)) (\<lambda>posted.
               if \<not> posted then return False else return True)))"

section \<open>\<open>main\<close>\<close>

text \<open>
  How the process ends: \<open>exit(status)\<close>, an exception nobody caught, or not at all.
  \<open>StillLooping\<close> is the answer of the \<open>while True\<close> loop after the number of cycles
  it was asked to show.
\<close>

datatype ending = Exited int | Uncaught exn | StillLooping

text \<open>
  The \<open>try\<close> block around \<open>poster.run()\<close> in \<open>main\<close>: both results and every
  exception lead to a log line and nothing else.
\<close>

definition try_run :: "world \<Rightarrow> env \<Rightarrow> unit prog" where
  "try_run w env st =
     (case run w env st of
        (Inr success, st') \<Rightarrow> (Inr (), st')
      | (Inl e, st') \<Rightarrow> (Inr (), st'))"

fun loop :: "world \<Rightarrow> env \<Rightarrow> int \<Rightarrow> nat \<Rightarrow> state \<Rightarrow> ending \<times> state" where
  "loop w env posting_interval 0 st = (StillLooping, st)"
| "loop w env posting_interval (Suc k) st =
     (case seq (try_run w env) (time_sleep (posting_interval * 60 * 60)) st of
        (Inl e, st') \<Rightarrow> (Uncaught e, st')
      | (Inr u, st') \<Rightarrow> loop w env posting_interval k st')"

definition main :: "world \<Rightarrow> env \<Rightarrow> nat \<Rightarrow> ending \<times> state" where
  "main w env cycles =
     (case ContentPoster w env init_state of
        (Inl e, st) \<Rightarrow> (Uncaught e, st)
      | (Inr u, st) \<Rightarrow>
          (let posting_interval = env ''POSTING_INTERVAL''
           in if truthy posting_interval then
                (case int_of_str w (the posting_interval) of
                   None \<Rightarrow> (Uncaught (ValueError_int (the posting_interval)), st)
                 | Some n \<Rightarrow> loop w env n cycles st)
              else
                (case try_run w env st of
                   (r, st') \<Rightarrow> (Exited 0, st'))))"

section \<open>Blocks of calls\<close>





section \<open>Example worlds\<close>

text \<open>
  Concrete inputs on which the theorems below are evaluated.  \<open>ascii_int\<close> reads an
  optional sign and decimal digits, as \<open>int\<close> does on such strings.  In
  \<open>happy_world\<close> every call returns, the browser holds one cookie and the generation
  endpoint answers 200 with a topic and a post.
\<close>

definition ascii_int :: "pystr \<Rightarrow> int option" where
  "ascii_int s =
     (let sign = (case s of [] \<Rightarrow> [] | c # r \<Rightarrow> if c = 0x2D \<or> c = 0x2B then [c] else []);
          ds = drop (length sign) s
      in if ds \<noteq> [] \<and> list_all isdigit ds
         then Some (if sign = [0x2D] then - digits_val ds else digits_val ds)
         else None)"

definition base_env :: env where
  "base_env =
     map_of
       [(''GENERATION_ENDPOINT'', str ''https://gen.example/api''),
        (''PLATFORM_POST_URL'', str ''https://forum.example/latest''),
        (''LOGIN_URL'', str ''https://forum.example/login''),
        (''EMAIL'', str ''bot@example.org''),
        (''PASSWORD'', str ''secret'')]"

definition example_content :: pystr where
  \<open>example_content = str ''{"topic": "T", "forumPost": "B"}''\<close>

definition happy_world :: world where
  "happy_world =
     \<lparr>succeeds = (\<lambda>h a. True),
      browser_cookies =
        (\<lambda>h. [\<lparr>cookie_name = str ''_t'', cookie_value = str ''abc'',
                cookie_domain = str ''forum.example''\<rparr>]),
      http_response = (\<lambda>h url j. (j, Response 200 example_content)),
      int_of_str = ascii_int\<rparr>"

definition logged_in_state :: state where
  "logged_in_state =
     \<lparr>trace = [], cookies = [((str ''forum.example'', str ''_t''), str ''abc'')]\<rparr>"

text \<open>
  Three variations: the marker of a successful login never shows, the generation
  endpoint answers 404, and the click on the submit button raises.
\<close>

definition no_marker_world :: world where
  "no_marker_world = happy_world\<lparr>succeeds := (\<lambda>h a. a \<noteq> Wait Presence LoginMarker 10)\<rparr>"

definition not_found_world :: world where
  "not_found_world = happy_world\<lparr>http_response := (\<lambda>h url j. (j, Response 404 []))\<rparr>"

definition no_submit_world :: world where
  "no_submit_world = happy_world\<lparr>succeeds := (\<lambda>h a. a \<noteq> Click CreateTopicButton)\<rparr>"


text \<open>
  Three more answers of the generation endpoint: 200 with a blank body, 200 with a
  body in white space, and no answer at all.
\<close>

definition blank_world :: world where
  "blank_world = happy_world\<lparr>http_response := (\<lambda>h url j. (j, Response 200 [0x20, 0x0A]))\<rparr>"

definition padded_world :: world where
  "padded_world =
     happy_world\<lparr>http_response := (\<lambda>h url j. (j, Response 200 (str '' hello '')))\<rparr>"

definition offline_world :: world where
  "offline_world = happy_world\<lparr>http_response := (\<lambda>h url j. (j, RaisesRequestException))\<rparr>"

text \<open>An environment without \<open>EMAIL\<close> and with an empty \<open>PASSWORD\<close>.\<close>

definition incomplete_env :: env where
  "incomplete_env = base_env(''EMAIL'' := None, ''PASSWORD'' \<mapsto> [])"

text \<open>
  The state a successful construction leaves, and a world whose generation endpoint
  makes the HTTP client raise an exception that is no \<open>RequestException\<close>.
\<close>

definition constructed_state :: state where
  "constructed_state = \<lparr>trace = [(Mkdtemp, True), (Launch, True)], cookies = []\<rparr>"

definition raising_world :: world where
  "raising_world = happy_world\<lparr>http_response := (\<lambda>h url j. (j, RaisesOther))\<rparr>"

section \<open>Properties of statements\<close>

text \<open>
  A statement extends the trace when the trace it leaves starts with the trace it
  found; it begins with a call when that call is the first it adds.
\<close>

definition extends :: "'a prog \<Rightarrow> bool" where
  "extends m \<longleftrightarrow> (\<forall>st. prefix (trace st) (trace (snd (m st))))"

definition begins_with :: "'a prog \<Rightarrow> action \<Rightarrow> bool" where
  "begins_with m a \<longleftrightarrow> (\<forall>st. \<exists>b evs. trace (snd (m st)) = trace st @ (a, b) # evs)"

section \<open>The budget of the scanner\<close>

text \<open>
  Every value the scanner reads takes at least one character, so the budget that
  \<open>json_loads\<close> gives is never used up: \<open>json_loads\<close> returns a value or raises
  \<open>JSONDecodeError\<close>.
\<close>

lemma skip_ws_le: "length (skip_ws s) \<le> length s"
  by (simp add: skip_ws_def length_dropWhile_le)

lemma skip_ws_Cons: "skip_ws s = d # r \<Longrightarrow> length r < length s"
  using skip_ws_le[of s] by simp

lemma scanstring_shorter_aux:
  "length s \<le> n \<Longrightarrow> scanstring s acc = Some (x, r) \<Longrightarrow> length r < length s"
proof (induction n arbitrary: s acc)
  case 0
  then show ?case by simp
next
  case (Suc n)
  note ih = Suc.IH[rotated]
  show ?case
  proof (cases s)
    case Nil
    with Suc.prems show ?thesis by simp
  next
    case (Cons c cs)
    with Suc.prems have len: "length cs \<le> n" by simp
    from Suc.prems(2) Cons len show ?thesis
      by (auto split: if_splits list.splits option.splits dest!: ih)
  qed
qed

lemma scanstring_shorter: "scanstring s acc = Some (x, r) \<Longrightarrow> length r < length s"
  by (rule scanstring_shorter_aux[OF le_refl])

lemma match_integer_prefix: "length (match_integer s) \<le> length s"
  by (auto simp: match_integer_def length_takeWhile_le split: list.splits
      intro: le_trans[OF length_takeWhile_le])

lemma match_number_shorter: "match_number s = Some (v, r) \<Longrightarrow> length r < length s"
proof -
  assume a: "match_number s = Some (v, r)"
  define sign where "sign = (case s of [] \<Rightarrow> [] | c # r \<Rightarrow> if c = (0x2D::nat) then [c] else [])"
  define ip where "ip = match_integer (drop (length sign) s)"
  from a have ne: "ip \<noteq> []"
    by (auto simp: match_number_def Let_def sign_def ip_def split: if_splits)
  from a obtain k where r: "r = drop k s" and k: "length ip \<le> k"
    by (auto simp: match_number_def Let_def sign_def ip_def split: if_splits)
  have "length ip \<le> length (drop (length sign) s)"
    unfolding ip_def by (rule match_integer_prefix)
  with ne have "s \<noteq> []" by auto
  moreover from ne k have "0 < k" by (cases ip) auto
  ultimately show ?thesis using r by simp
qed

lemma scan_once_str:
  "scan_once (Suc n) (0x22 # cs) =
     (case scanstring cs [] of None \<Rightarrow> Fail | Some (x, r) \<Rightarrow> Ok (PyStr x) r)"
  by simp

lemma scan_once_obj:
  "scan_once (Suc n) (0x7B # cs) =
     (case skip_ws cs of
        [] \<Rightarrow> Fail
      | d # r \<Rightarrow>
          if d = 0x7D then Ok (PyDict []) r
          else if d = 0x22 then JSONObject n r []
          else Fail)"
  by simp

lemma scan_once_arr:
  "scan_once (Suc n) (0x5B # cs) =
     (case skip_ws cs of
        [] \<Rightarrow> Fail
      | d # r \<Rightarrow> if d = 0x5D then Ok (PyList []) r else JSONArray n (d # r) [])"
  by simp

lemma scan_once_atom_fuel:
  "c \<noteq> 0x22 \<Longrightarrow> c \<noteq> 0x7B \<Longrightarrow> c \<noteq> 0x5B \<Longrightarrow> scan_once (Suc n) (c # cs) \<noteq> OutOfFuel"
  by (simp split: option.splits)

lemma scan_once_atom_shorter:
  "c \<noteq> 0x22 \<Longrightarrow> c \<noteq> 0x7B \<Longrightarrow> c \<noteq> 0x5B \<Longrightarrow> scan_once (Suc n) (c # cs) = Ok v r \<Longrightarrow>
   length r < Suc (length cs)"
  by (auto split: if_splits option.splits dest: match_number_shorter)

lemma scan_shorter:
  "(scan_once n s = Ok v r \<longrightarrow> length r < length s) \<and>
   (JSONObject n s p = Ok v r \<longrightarrow> length r < length s) \<and>
   (JSONArray n s a = Ok v r \<longrightarrow> length r < length s)"
proof (induction n arbitrary: s p a v r)
  case 0
  show ?case by simp
next
  case (Suc n)
  have ih1: "\<And>s v r. scan_once n (skip_ws s) = Ok v r \<Longrightarrow> length r < length s"
  proof -
    fix s v r assume "scan_once n (skip_ws s) = Ok v r"
    with Suc.IH have "length r < length (skip_ws s)" by blast
    with skip_ws_le[of s] show "length r < length s" by simp
  qed
  have ih1': "\<And>s v r. scan_once n s = Ok v r \<Longrightarrow> length r < length s"
    using Suc.IH by blast
  have ih2: "\<And>s p v r. JSONObject n s p = Ok v r \<Longrightarrow> length r < length s"
    using Suc.IH by blast
  have ih3: "\<And>s a v r. JSONArray n s a = Ok v r \<Longrightarrow> length r < length s"
    using Suc.IH by blast
  have ih3': "\<And>s a v r. JSONArray n (skip_ws s) a = Ok v r \<Longrightarrow> length r < length s"
  proof -
    fix s a v r assume "JSONArray n (skip_ws s) a = Ok v r"
    with ih3 have "length r < length (skip_ws s)" by blast
    with skip_ws_le[of s] show "length r < length s" by simp
  qed
  have 1: "scan_once (Suc n) s = Ok v r \<longrightarrow> length r < length s"
  proof (cases s)
    case Nil
    then show ?thesis by simp
  next
    case (Cons c cs)
    consider (str) "c = 0x22" | (obj) "c = 0x7B" | (arr) "c = 0x5B"
      | (atom) "c \<noteq> 0x22" "c \<noteq> 0x7B" "c \<noteq> 0x5B"
      by blast
    then show ?thesis
    proof cases
      case str
      with Cons show ?thesis
        by (auto simp: scan_once_str simp del: scan_once.simps split: option.splits
            dest!: scanstring_shorter)
    next
      case obj
      with Cons show ?thesis
        by (auto simp: scan_once_obj simp del: scan_once.simps split: list.splits if_splits
            dest!: skip_ws_Cons ih2)
    next
      case arr
      show ?thesis
      proof
        assume a: "scan_once (Suc n) s = Ok v r"
        show "length r < length s"
        proof (cases "skip_ws cs")
          case Nil
          with a Cons arr show ?thesis by (simp add: scan_once_arr del: scan_once.simps)
        next
          case (Cons d r')
          have le: "length (d # r') \<le> length cs"
            using skip_ws_le[of cs] Cons by simp
          show ?thesis
          proof (cases "d = 0x5D")
            case True
            with a \<open>s = c # cs\<close> arr Cons le show ?thesis
              by (simp add: scan_once_arr del: scan_once.simps)
          next
            case False
            with a \<open>s = c # cs\<close> arr Cons have "JSONArray n (d # r') [] = Ok v r"
              by (simp add: scan_once_arr del: scan_once.simps)
            from ih3[OF this] le \<open>s = c # cs\<close> show ?thesis by simp
          qed
        qed
      qed
    next
      case atom
      with Cons show ?thesis
        by (auto dest: scan_once_atom_shorter simp del: scan_once.simps)
    qed
  qed
  have 2: "JSONObject (Suc n) s p = Ok v r \<longrightarrow> length r < length s"
    by (auto split: option.splits list.splits if_splits scan.splits
        dest!: scanstring_shorter skip_ws_Cons ih1 ih2)
  have 3: "JSONArray (Suc n) s a = Ok v r \<longrightarrow> length r < length s"
    by (auto split: list.splits if_splits scan.splits dest!: skip_ws_Cons ih1' ih3')
  from 1 2 3 show ?case by blast
qed

lemma scan_once_shorter: "scan_once n s = Ok v r \<Longrightarrow> length r < length s"
  using scan_shorter[of n s v r] by blast

lemma scan_fuel:
  "(2 * length s < n \<longrightarrow> scan_once n s \<noteq> OutOfFuel) \<and>
   (2 * length s < n \<longrightarrow> JSONObject n s p \<noteq> OutOfFuel) \<and>
   (2 * length s + 1 < n \<longrightarrow> JSONArray n s a \<noteq> OutOfFuel)"
proof (induction n arbitrary: s p a)
  case 0
  show ?case by simp
next
  case (Suc n)
  have ih1: "\<And>s. 2 * length s < n \<Longrightarrow> scan_once n s \<noteq> OutOfFuel"
    and ih2: "\<And>s p. 2 * length s < n \<Longrightarrow> JSONObject n s p \<noteq> OutOfFuel"
    and ih3: "\<And>s a. 2 * length s + 1 < n \<Longrightarrow> JSONArray n s a \<noteq> OutOfFuel"
    using Suc.IH by blast+
  have 1: "2 * length s < Suc n \<longrightarrow> scan_once (Suc n) s \<noteq> OutOfFuel"
  proof
    assume b: "2 * length s < Suc n"
    show "scan_once (Suc n) s \<noteq> OutOfFuel"
    proof (cases s)
      case Nil
      then show ?thesis by simp
    next
      case (Cons c cs)
      with b have b': "2 * length cs + 1 < n" by simp
      consider (str) "c = 0x22" | (obj) "c = 0x7B" | (arr) "c = 0x5B"
        | (atom) "c \<noteq> 0x22" "c \<noteq> 0x7B" "c \<noteq> 0x5B"
        by blast
      then show ?thesis
      proof cases
        case str
        with Cons show ?thesis
          by (simp add: scan_once_str del: scan_once.simps split: option.splits)
      next
        case obj
        show ?thesis
        proof (cases "skip_ws cs")
          case Nil
          with Cons obj show ?thesis by (simp add: scan_once_obj del: scan_once.simps)
        next
          case (Cons d r)
          then have "length r < length cs" by (rule skip_ws_Cons)
          with b' have "2 * length r < n" by simp
          from ih2[OF this] \<open>s = c # cs\<close> obj Cons show ?thesis
            by (simp add: scan_once_obj del: scan_once.simps)
        qed
      next
        case arr
        show ?thesis
        proof (cases "skip_ws cs")
          case Nil
          with Cons arr show ?thesis by (simp add: scan_once_arr del: scan_once.simps)
        next
          case (Cons d r)
          have "length (d # r) \<le> length cs"
            using skip_ws_le[of cs] Cons by simp
          with b' have "2 * length (d # r) + 1 < n" by simp
          from ih3[OF this] \<open>s = c # cs\<close> arr Cons show ?thesis
            by (simp add: scan_once_arr del: scan_once.simps)
        qed
      next
        case atom
        from scan_once_atom_fuel[OF atom, of n cs] Cons show ?thesis
          by (simp del: scan_once.simps)
      qed
    qed
  qed
  have 2: "2 * length s < Suc n \<longrightarrow> JSONObject (Suc n) s p \<noteq> OutOfFuel"
  proof
    assume b: "2 * length s < Suc n"
    show "JSONObject (Suc n) s p \<noteq> OutOfFuel"
    proof (cases "scanstring s []")
      case None
      then show ?thesis by simp
    next
      case (Some kr)
      obtain key r where kr: "kr = (key, r)" by (cases kr)
      with Some have r: "length r < length s" by (auto dest: scanstring_shorter)
      show ?thesis
      proof (cases "skip_ws r")
        case Nil
        with Some kr show ?thesis by simp
      next
        case (Cons c r2)
        then have r2: "length r2 < length r" by (rule skip_ws_Cons)
        have l: "length (skip_ws r2) \<le> length r2" by (rule skip_ws_le)
        with r r2 b have "2 * length (skip_ws r2) < n" by simp
        then have f: "scan_once n (skip_ws r2) \<noteq> OutOfFuel" by (rule ih1)
        show ?thesis
        proof (cases "scan_once n (skip_ws r2)")
          case (Ok v r4)
          then have r4: "length r4 < length (skip_ws r2)" by (rule scan_once_shorter)
          show ?thesis
          proof (cases "skip_ws r4")
            case Nil
            with Some kr Cons Ok show ?thesis by simp
          next
            case (Cons d r6)
            then have r6: "length r6 < length r4" by (rule skip_ws_Cons)
            show ?thesis
            proof (cases "skip_ws r6")
              case Nil
              with Some kr \<open>skip_ws r = c # r2\<close> Ok Cons show ?thesis by simp
            next
              case (Cons q r8)
              then have "length r8 < length r6" by (rule skip_ws_Cons)
              with r6 r4 l r2 r b have "2 * length r8 < n" by simp
              then have "JSONObject n r8 (dict_set p key v) \<noteq> OutOfFuel" by (rule ih2)
              with Some kr \<open>skip_ws r = c # r2\<close> Ok \<open>skip_ws r4 = d # r6\<close> Cons show ?thesis
                by simp
            qed
          qed
        next
          case Fail
          with Some kr Cons show ?thesis by simp
        next
          case OutOfFuel
          with f show ?thesis by simp
        qed
      qed
    qed
  qed
  have 3: "2 * length s + 1 < Suc n \<longrightarrow> JSONArray (Suc n) s a \<noteq> OutOfFuel"
  proof
    assume b: "2 * length s + 1 < Suc n"
    then have "2 * length s < n" by simp
    then have f: "scan_once n s \<noteq> OutOfFuel" by (rule ih1)
    show "JSONArray (Suc n) s a \<noteq> OutOfFuel"
    proof (cases "scan_once n s")
      case (Ok v r)
      then have r: "length r < length s" by (rule scan_once_shorter)
      show ?thesis
      proof (cases "skip_ws r")
        case Nil
        with Ok show ?thesis by simp
      next
        case (Cons d r2)
        then have r2: "length r2 < length r" by (rule skip_ws_Cons)
        have "length (skip_ws r2) \<le> length r2" by (rule skip_ws_le)
        with r r2 b have "2 * length (skip_ws r2) + 1 < n" by simp
        then have "JSONArray n (skip_ws r2) (a @ [v]) \<noteq> OutOfFuel" by (rule ih3)
        with Ok Cons show ?thesis by simp
      qed
    next
      case Fail
      then show ?thesis by simp
    next
      case OutOfFuel
      with f show ?thesis by simp
    qed
  qed
  from 1 2 3 show ?case by blast
qed

lemma json_loads_budget: "json_loads s \<noteq> Inl RecursionError"
proof -
  have "2 * length (skip_ws s) < 2 * length s + 1"
    using skip_ws_le[of s] by simp
  with scan_fuel[of "skip_ws s" "2 * length s + 1"]
  have f: "scan_once (2 * length s + 1) (skip_ws s) \<noteq> OutOfFuel" by blast
  show ?thesis
  proof (cases "scan_once (2 * length s + 1) (skip_ws s)")
    case (Ok v r)
    then show ?thesis
      unfolding json_loads_def by (simp del: scan_once.simps)
  next
    case Fail
    then show ?thesis
      unfolding json_loads_def by (simp del: scan_once.simps)
  next
    case OutOfFuel
    with f show ?thesis by blast
  qed
qed

section \<open>Basic facts\<close>

lemma seq_call:
  "seq (call w a) k st =
     (if succeeds w (trace st) a
      then k (st\<lparr>trace := trace st @ [(a, True)]\<rparr>)
      else (Inl (raised_by a), st\<lparr>trace := trace st @ [(a, False)]\<rparr>))"
  by (simp add: seq_def andthen_def call_def)

lemma seq_lift:
  "seq (lift r) k st = (case r of Inl e \<Rightarrow> (Inl e, st) | Inr x \<Rightarrow> k st)"
  by (simp add: seq_def andthen_def lift_def split: sum.splits)

lemma andthen_lift:
  "andthen (lift r) f st = (case r of Inl e \<Rightarrow> (Inl e, st) | Inr x \<Rightarrow> f x st)"
  by (simp add: andthen_def lift_def split: sum.splits)

lemma except_Exception_returns: "\<exists>b. fst (except_Exception m st) = Inr b"
  by (cases "m st") (auto simp: except_Exception_def split: sum.splits)

lemma login_returns: "\<exists>b. fst (login w env st) = Inr b"
  unfolding login_def by (rule except_Exception_returns)

lemma post_returns: "\<exists>b. fst (post_content_to_platform w env c st) = Inr b"
  by (auto simp: post_content_to_platform_def except_Exception_returns)

lemma fetch_content_nonempty: "fetch_content w env st = (Inr (Some c), st') \<Longrightarrow> c \<noteq> []"
  by (auto simp: fetch_content_def except_RequestException_def andthen_def seq_def lift_def
      return_def Let_def session_get_def raise_for_status_def
      split: prod.splits sum.splits if_splits http_outcome.splits)

lemma json_loads_example:
  "json_loads example_content =
     Inr (PyDict [(str ''topic'', PyStr (str ''T'')), (str ''forumPost'', PyStr (str ''B''))])"
  by code_simp

lemma andthen_get_cookies:
  "andthen (get_cookies w) f st =
     (if succeeds w (trace st) GetCookies
      then f (browser_cookies w (trace st)) (st\<lparr>trace := trace st @ [(GetCookies, True)]\<rparr>)
      else (Inl WebDriverException, st\<lparr>trace := trace st @ [(GetCookies, False)]\<rparr>))"
  by (simp add: andthen_def get_cookies_def)

lemma seq_store_cookies:
  "seq (store_cookies cs) k st =
     k (st\<lparr>cookies :=
          foldl (\<lambda>j c. jar_set j (cookie_domain c, cookie_name c) (cookie_value c)) (cookies st) cs\<rparr>)"
  by (simp add: seq_def andthen_def store_cookies_def)

lemmas step_simps =
  seq_call seq_lift andthen_lift andthen_get_cookies seq_store_cookies return_def

lemmas fetch_simps =
  fetch_content_def except_RequestException_def andthen_def session_get_def seq_lift
  raise_for_status_def return_def

lemma strip_example: "strip example_content = example_content"
  by code_simp

lemma getitem_example:
  "getitem (PyDict [(str ''topic'', PyStr (str ''T'')), (str ''forumPost'', PyStr (str ''B''))])
     (str ''topic'') = Inr (PyStr (str ''T''))"
  "getitem (PyDict [(str ''topic'', PyStr (str ''T'')), (str ''forumPost'', PyStr (str ''B''))])
     (str ''forumPost'') = Inr (PyStr (str ''B''))"
  by code_simp+

lemma example_content_nonempty: "example_content \<noteq> []"
  by (simp add: example_content_def str_def)

lemma login_happy: "fst (login happy_world env st) = Inr True"
  by (simp add: login_def except_Exception_def step_simps happy_world_def)

lemma login_happy_cookies:
  "cookies st = [] \<Longrightarrow>
   cookies (snd (login happy_world env st)) = [((str ''forum.example'', str ''_t''), str ''abc'')]"
  by (simp add: login_def except_Exception_def step_simps happy_world_def)

lemma login_no_marker: "fst (login no_marker_world env st) = Inr False"
  by (simp add: login_def except_Exception_def step_simps no_marker_world_def happy_world_def)

lemma fetch_happy: "fst (fetch_content happy_world env st) = Inr (Some example_content)"
  by (simp add: fetch_simps strip_example example_content_nonempty happy_world_def)

lemma fetch_happy_cookies: "cookies (snd (fetch_content happy_world env st)) = cookies st"
  by (simp add: fetch_simps strip_example example_content_nonempty happy_world_def)

lemma fetch_not_found: "fst (fetch_content not_found_world env st) = Inr None"
  by (simp add: fetch_simps not_found_world_def happy_world_def)

lemma post_happy:
  "cookies st \<noteq> [] \<Longrightarrow>
   fst (post_content_to_platform happy_world env example_content st) = Inr True"
  by (simp add: post_content_to_platform_def except_Exception_def step_simps json_loads_example
      getitem_example happy_world_def)

lemma post_no_submit:
  "fst (post_content_to_platform no_submit_world env example_content st) = Inr False"
  by (simp add: post_content_to_platform_def except_Exception_def step_simps json_loads_example
      getitem_example no_submit_world_def happy_world_def)









section \<open>The workflow \<open>run\<close>\<close>

text \<open>
  Claim C1.  \<open>run\<close> performs \<open>login\<close>, then \<open>fetch_content\<close> on the state \<open>login\<close> left,
  then \<open>post_content_to_platform\<close> on the fetched content and the state the fetch left.
  When \<open>login\<close> returns false, \<open>run\<close> returns false in the state \<open>login\<close> left, so nothing
  was fetched or posted; when the fetch returns no content, \<open>run\<close> returns false in the
  state the fetch left, so nothing was posted; when posting returns false, so does
  \<open>run\<close>.  \<open>run\<close> returns true exactly when \<open>login\<close> returned true, the fetch returned
  content and posting that content returned true, each step starting where the step
  before it ended.
\<close>

theorem run_steps:
  "(login w env st = (Inr False, s1) \<longrightarrow> run w env st = (Inr False, s1)) \<and>
   (login w env st = (Inr True, s1) \<and> fetch_content w env s1 = (Inr None, s2)
      \<longrightarrow> run w env st = (Inr False, s2)) \<and>
   (login w env st = (Inr True, s1) \<and> fetch_content w env s1 = (Inr (Some c), s2) \<and>
    post_content_to_platform w env c s2 = (Inr False, s3)
      \<longrightarrow> run w env st = (Inr False, s3)) \<and>
   (run w env st = (Inr True, s') \<longleftrightarrow>
      (\<exists>t1 t2 c'. login w env st = (Inr True, t1) \<and>
         fetch_content w env t1 = (Inr (Some c'), t2) \<and>
         post_content_to_platform w env c' t2 = (Inr True, s')))"
proof (intro conjI impI)
  assume "login w env st = (Inr False, s1)"
  then show "run w env st = (Inr False, s1)"
    by (simp add: run_def andthen_def return_def)
next
  assume "login w env st = (Inr True, s1) \<and> fetch_content w env s1 = (Inr None, s2)"
  then show "run w env st = (Inr False, s2)"
    by (simp add: run_def andthen_def return_def truthy_def)
next
  assume a: "login w env st = (Inr True, s1) \<and> fetch_content w env s1 = (Inr (Some c), s2) \<and>
    post_content_to_platform w env c s2 = (Inr False, s3)"
  then have "c \<noteq> []" using fetch_content_nonempty by blast
  with a show "run w env st = (Inr False, s3)"
    by (simp add: run_def andthen_def return_def truthy_def)
next
  show "run w env st = (Inr True, s') \<longleftrightarrow>
      (\<exists>t1 t2 c'. login w env st = (Inr True, t1) \<and>
         fetch_content w env t1 = (Inr (Some c'), t2) \<and>
         post_content_to_platform w env c' t2 = (Inr True, s'))"
  proof
    assume r: "run w env st = (Inr True, s')"
    obtain b t1 where l: "login w env st = (Inr b, t1)"
      using login_returns[of w env st] by (cases "login w env st") auto
    with r have b: "b"
      by (auto simp: run_def andthen_def return_def split: if_splits)
    obtain rc t2 where f: "fetch_content w env t1 = (rc, t2)"
      by (cases "fetch_content w env t1")
    with r l b obtain c' where c: "rc = Inr (Some c')" "c' \<noteq> []"
      by (auto simp: run_def andthen_def return_def truthy_def
          split: sum.splits option.splits if_splits)
    obtain rp t3 where p: "post_content_to_platform w env c' t2 = (rp, t3)"
      by (cases "post_content_to_platform w env c' t2")
    with r l b f c have "rp = Inr True \<and> t3 = s'"
      by (auto simp: run_def andthen_def return_def truthy_def split: sum.splits if_splits)
    with l b f c p show "\<exists>t1 t2 c'. login w env st = (Inr True, t1) \<and>
         fetch_content w env t1 = (Inr (Some c'), t2) \<and>
         post_content_to_platform w env c' t2 = (Inr True, s')"
      by auto
  next
    assume "\<exists>t1 t2 c'. login w env st = (Inr True, t1) \<and>
         fetch_content w env t1 = (Inr (Some c'), t2) \<and>
         post_content_to_platform w env c' t2 = (Inr True, s')"
    then obtain t1 t2 c' where h: "login w env st = (Inr True, t1)"
        "fetch_content w env t1 = (Inr (Some c'), t2)"
        "post_content_to_platform w env c' t2 = (Inr True, s')"
      by blast
    then have "c' \<noteq> []" using fetch_content_nonempty by blast
    with h show "run w env st = (Inr True, s')"
      by (simp add: run_def andthen_def return_def truthy_def)
  qed
qed

text \<open>
  The four cases at concrete inputs: a login whose marker never shows, a fetch
  answered 404, a submit click that raises, and a run where everything works.
\<close>

theorem run_steps_witness:
  "fst (login no_marker_world base_env init_state) = Inr False \<and>
   run no_marker_world base_env init_state =
     (Inr False, snd (login no_marker_world base_env init_state)) \<and>
   fst (login not_found_world base_env init_state) = Inr True \<and>
   fst (fetch_content not_found_world base_env
          (snd (login not_found_world base_env init_state))) = Inr None \<and>
   run not_found_world base_env init_state =
     (Inr False,
      snd (fetch_content not_found_world base_env
             (snd (login not_found_world base_env init_state)))) \<and>
   fst (post_content_to_platform no_submit_world base_env example_content
          (snd (fetch_content no_submit_world base_env
                  (snd (login no_submit_world base_env init_state))))) = Inr False \<and>
   fst (run no_submit_world base_env init_state) = Inr False \<and>
   fst (run happy_world base_env init_state) = Inr True"
proof -
  let ?l1 = "login no_marker_world base_env init_state"
  have l1: "?l1 = (Inr False, snd ?l1)"
    by (simp add: prod_eq_iff login_no_marker)
  have r1: "run no_marker_world base_env init_state = (Inr False, snd ?l1)"
    using run_steps[of no_marker_world base_env init_state "snd ?l1"] l1 by blast
  let ?l2 = "login not_found_world base_env init_state"
  let ?f2 = "fetch_content not_found_world base_env (snd ?l2)"
  have l2: "?l2 = (Inr True, snd ?l2)"
    by (simp add: prod_eq_iff login_def except_Exception_def step_simps not_found_world_def
        happy_world_def)
  have f2: "?f2 = (Inr None, snd ?f2)"
    by (simp add: prod_eq_iff fetch_not_found)
  have r2: "run not_found_world base_env init_state = (Inr False, snd ?f2)"
    using run_steps[of not_found_world base_env init_state "snd ?l2" "snd ?f2"] l2 f2 by blast
  let ?l3 = "login no_submit_world base_env init_state"
  let ?f3 = "fetch_content no_submit_world base_env (snd ?l3)"
  let ?p3 = "post_content_to_platform no_submit_world base_env example_content (snd ?f3)"
  have l3: "?l3 = (Inr True, snd ?l3)"
    by (simp add: prod_eq_iff login_def except_Exception_def step_simps no_submit_world_def
        happy_world_def)
  have f3: "?f3 = (Inr (Some example_content), snd ?f3)"
    by (simp add: prod_eq_iff fetch_simps strip_example example_content_nonempty
        no_submit_world_def happy_world_def)
  have p3: "?p3 = (Inr False, snd ?p3)"
    by (simp add: prod_eq_iff post_no_submit)
  have r3: "run no_submit_world base_env init_state = (Inr False, snd ?p3)"
    using run_steps[of no_submit_world base_env init_state "snd ?l3" "snd ?f3" example_content
        "snd ?p3"] l3 f3 p3 by blast
  let ?l4 = "login happy_world base_env init_state"
  let ?f4 = "fetch_content happy_world base_env (snd ?l4)"
  let ?p4 = "post_content_to_platform happy_world base_env example_content (snd ?f4)"
  have l4: "?l4 = (Inr True, snd ?l4)"
    by (simp add: prod_eq_iff login_happy)
  have f4: "?f4 = (Inr (Some example_content), snd ?f4)"
    by (simp add: prod_eq_iff fetch_happy)
  have "cookies (snd ?f4) \<noteq> []"
    by (simp add: fetch_happy_cookies login_happy_cookies init_state_def)
  then have p4: "?p4 = (Inr True, snd ?p4)"
    by (simp add: prod_eq_iff post_happy)
  have r4: "run happy_world base_env init_state = (Inr True, snd ?p4)"
    using run_steps[of happy_world base_env init_state _ _ _ _ "snd ?p4"] l4 f4 p4 by blast
  show ?thesis
    using l1 r1 l2 f2 r2 p3 r3 r4 by (simp add: prod_eq_iff)
qed

section \<open>Posting\<close>

text \<open>
  Claim C5.  When the session's cookie jar is empty, \<open>post_content_to_platform\<close>
  returns false at once, whatever the content: the state it returns is the state it
  was called in, so the trace has no new call, no navigation to the posting URL and no
  other call on the browser.
\<close>

theorem post_without_cookies:
  "cookies st = [] \<Longrightarrow> post_content_to_platform w env content st = (Inr False, st)"
  by (simp add: post_content_to_platform_def)

theorem post_without_cookies_witness:
  "cookies init_state = [] \<and>
   post_content_to_platform happy_world base_env example_content init_state =
     (Inr False, init_state)"
proof -
  have h: "cookies init_state = []"
    by (simp add: init_state_def)
  from post_without_cookies[OF h] show ?thesis
    using h by simp
qed




text \<open>
  Claim C6.  When the content is not valid JSON (\<open>json.loads\<close> raises), or parses to
  a value without the key \<open>topic\<close> or without the key \<open>forumPost\<close> (the subscript
  raises \<open>KeyError\<close>, or \<open>TypeError\<close> when the value is no dictionary),
  \<open>post_content_to_platform\<close> returns false; its result is a returned value, not an
  exception.
\<close>

theorem post_malformed:
  "(case json_loads content of
      Inl e \<Rightarrow> True
    | Inr v \<Rightarrow> isl (getitem v (str ''topic'')) \<or> isl (getitem v (str ''forumPost''))) \<Longrightarrow>
   fst (post_content_to_platform w env content st) = Inr False"
  by (auto simp: post_content_to_platform_def except_Exception_def step_simps isl_def
      split: sum.splits)

lemma json_loads_not_json: "json_loads (str ''not json'') = Inl JSONDecodeError"
  by code_simp

lemma json_loads_topic_only:
  \<open>json_loads (str ''{"topic": "T"}'') = Inr (PyDict [(str ''topic'', PyStr (str ''T''))])\<close>
  by code_simp

lemma json_loads_list:
  \<open>json_loads (str ''["topic", "forumPost"]'') =
     Inr (PyList [PyStr (str ''topic''), PyStr (str ''forumPost'')])\<close>
  by code_simp

lemma getitem_missing:
  "getitem (PyDict [(str ''topic'', PyStr (str ''T''))]) (str ''forumPost'') =
     Inl (KeyError (str ''forumPost''))"
  by code_simp

lemma getitem_list:
  "getitem (PyList [PyStr (str ''topic''), PyStr (str ''forumPost'')]) (str ''topic'') =
     Inl TypeError"
  by code_simp

text \<open>Three malformed contents: no JSON, a dictionary without \<open>forumPost\<close>, a list.\<close>

theorem post_malformed_witness:
  \<open>fst (post_content_to_platform happy_world base_env (str ''not json'') logged_in_state) =
     Inr False \<and>
   fst (post_content_to_platform happy_world base_env (str ''{"topic": "T"}'') logged_in_state) =
     Inr False \<and>
   fst (post_content_to_platform happy_world base_env (str ''["topic", "forumPost"]'')
          logged_in_state) = Inr False\<close>
proof -
  have 1: "(case json_loads (str ''not json'') of
      Inl e \<Rightarrow> True
    | Inr v \<Rightarrow> isl (getitem v (str ''topic'')) \<or> isl (getitem v (str ''forumPost'')))"
    by (simp add: json_loads_not_json)
  have 2: \<open>(case json_loads (str ''{"topic": "T"}'') of
      Inl e \<Rightarrow> True
    | Inr v \<Rightarrow> isl (getitem v (str ''topic'')) \<or> isl (getitem v (str ''forumPost'')))\<close>
    by (simp add: json_loads_topic_only getitem_missing)
  have 3: \<open>(case json_loads (str ''["topic", "forumPost"]'') of
      Inl e \<Rightarrow> True
    | Inr v \<Rightarrow> isl (getitem v (str ''topic'')) \<or> isl (getitem v (str ''forumPost'')))\<close>
    by (simp add: json_loads_list getitem_list)
  from post_malformed[OF 1] post_malformed[OF 2] post_malformed[OF 3] show ?thesis
    by blast
qed

section \<open>Login\<close>



section \<open>Fetching\<close>

text \<open>What \<open>strip\<close> removes is white space, and what it leaves starts and ends without.\<close>

lemma strip_decomp:
  "\<exists>a b. s = a @ strip s @ b \<and> (\<forall>c\<in>set a. isspace c) \<and> (\<forall>c\<in>set b. isspace c)"
proof -
  let ?t = "dropWhile isspace s"
  have "s = takeWhile isspace s @ ?t" by simp
  moreover have "rev (rev ?t) = rev (takeWhile isspace (rev ?t) @ dropWhile isspace (rev ?t))"
    by (simp only: takeWhile_dropWhile_id)
  then have "?t = rev (dropWhile isspace (rev ?t)) @ rev (takeWhile isspace (rev ?t))"
    by (simp only: rev_append rev_rev_ident)
  ultimately have "s = takeWhile isspace s @ strip s @ rev (takeWhile isspace (rev ?t))"
    by (simp add: strip_def)
  moreover have "\<forall>c\<in>set (takeWhile isspace s). isspace c"
    by (auto dest: set_takeWhileD)
  moreover have "\<forall>c\<in>set (rev (takeWhile isspace (rev ?t))). isspace c"
    by (auto dest: set_takeWhileD)
  ultimately show ?thesis by blast
qed

lemma strip_empty_iff: "strip s = [] \<longleftrightarrow> (\<forall>c\<in>set s. isspace c)"
proof
  assume "strip s = []"
  then have a: "\<forall>c\<in>set (dropWhile isspace s). isspace c"
    by (simp add: strip_def)
  have "dropWhile isspace s = []"
    using hd_dropWhile[of isspace s] a by (cases "dropWhile isspace s") auto
  then show "\<forall>c\<in>set s. isspace c"
    by simp
next
  assume "\<forall>c\<in>set s. isspace c"
  then show "strip s = []"
    by (auto simp: strip_def dest: set_dropWhileD)
qed

lemma strip_ends:
  assumes "strip s \<noteq> []"
  shows "\<not> isspace (hd (strip s)) \<and> \<not> isspace (last (strip s))"
proof -
  let ?t = "dropWhile isspace s"
  let ?u = "dropWhile isspace (rev ?t)"
  from assms have u: "?u \<noteq> []" by (simp add: strip_def)
  then have t: "?t \<noteq> []" by (auto dest: set_dropWhileD)
  have "last (strip s) = hd ?u" using u by (simp add: strip_def last_rev)
  moreover have "\<not> isspace (hd ?u)" using u by (rule hd_dropWhile)
  moreover have "hd (strip s) = last ?u" using u by (simp add: strip_def hd_rev)
  moreover have "last (takeWhile isspace (rev ?t) @ ?u) = last ?u"
    using u by (rule last_appendR)
  then have "last ?u = last (rev ?t)" by (simp only: takeWhile_dropWhile_id)
  moreover have "last (rev ?t) = hd ?t" using t by (simp add: last_rev)
  moreover have "\<not> isspace (hd ?t)" using t by (rule hd_dropWhile)
  ultimately show ?thesis by simp
qed

text \<open>
  Claim C4.  \<open>fetch_content\<close> returns \<open>None\<close> when the response has a 4xx or 5xx
  status (\<open>raise_for_status\<close> raises on these and on no other status), returns \<open>None\<close>
  when the status is no error, as 200 is, and the body is empty or all white space,
  and otherwise returns the body without its leading and trailing white space, a string
  that is not empty and neither starts nor ends with white space.  When the request
  itself fails with a \<open>RequestException\<close> the result is \<open>None\<close> too, a returned value
  and not an exception.
\<close>

theorem fetch_content_cases:
  assumes "http_response w (trace st) (py (env ''GENERATION_ENDPOINT'')) (cookies st) = (j, out)"
  shows
   "(\<forall>status text. out = Response status text \<and> 400 \<le> status \<and> status < 600 \<longrightarrow>
        fst (fetch_content w env st) = Inr None) \<and>
    (\<forall>status text. out = Response status text \<and> \<not> (400 \<le> status \<and> status < 600) \<and>
        (\<forall>c\<in>set text. isspace c) \<longrightarrow>
        fst (fetch_content w env st) = Inr None) \<and>
    (\<forall>status text. out = Response status text \<and> \<not> (400 \<le> status \<and> status < 600) \<and>
        (\<exists>c\<in>set text. \<not> isspace c) \<longrightarrow>
        fst (fetch_content w env st) = Inr (Some (strip text)) \<and>
        strip text \<noteq> [] \<and> \<not> isspace (hd (strip text)) \<and> \<not> isspace (last (strip text)) \<and>
        (\<exists>a b. text = a @ strip text @ b \<and> (\<forall>c\<in>set a. isspace c) \<and> (\<forall>c\<in>set b. isspace c))) \<and>
    (out = RaisesRequestException \<longrightarrow> fst (fetch_content w env st) = Inr None)"
proof (intro conjI allI impI)
  fix status body
  assume "out = Response status body \<and> 400 \<le> status \<and> status < 600"
  with assms show "fst (fetch_content w env st) = Inr None"
    by (simp add: fetch_simps)
next
  fix status body
  assume a: "out = Response status body \<and> \<not> (400 \<le> status \<and> status < 600) \<and> (\<forall>c\<in>set body. isspace c)"
  then have "strip body = []" by (simp add: strip_empty_iff)
  with a assms show "fst (fetch_content w env st) = Inr None"
    by (simp add: fetch_simps)
next
  fix status body
  assume a: "out = Response status body \<and> \<not> (400 \<le> status \<and> status < 600) \<and> (\<exists>c\<in>set body. \<not> isspace c)"
  then have ne: "strip body \<noteq> []" by (simp add: strip_empty_iff)
  with a assms show "fst (fetch_content w env st) = Inr (Some (strip body))"
    by (simp add: fetch_simps)
  from ne show "strip body \<noteq> []" .
  from strip_ends[OF ne] show "\<not> isspace (hd (strip body))" "\<not> isspace (last (strip body))" by simp_all
  from strip_decomp show "\<exists>a b. body = a @ strip body @ b \<and> (\<forall>c\<in>set a. isspace c) \<and> (\<forall>c\<in>set b. isspace c)" .
next
  assume "out = RaisesRequestException"
  with assms show "fst (fetch_content w env st) = Inr None"
    by (simp add: fetch_simps)
qed

lemma strip_padded: "strip (str '' hello '') = str ''hello''"
  by code_simp

theorem fetch_content_cases_witness:
  "fst (fetch_content not_found_world base_env init_state) = Inr None \<and>
   fst (fetch_content blank_world base_env init_state) = Inr None \<and>
   fst (fetch_content padded_world base_env init_state) = Inr (Some (str ''hello'')) \<and>
   fst (fetch_content offline_world base_env init_state) = Inr None"
proof -
  have 1: "http_response not_found_world (trace init_state)
      (py (base_env ''GENERATION_ENDPOINT'')) (cookies init_state) = ([], Response 404 [])"
    by (simp add: not_found_world_def init_state_def)
  have 2: "http_response blank_world (trace init_state)
      (py (base_env ''GENERATION_ENDPOINT'')) (cookies init_state) = ([], Response 200 [0x20, 0x0A])"
    by (simp add: blank_world_def init_state_def)
  have 3: "http_response padded_world (trace init_state)
      (py (base_env ''GENERATION_ENDPOINT'')) (cookies init_state) =
        ([], Response 200 (str '' hello ''))"
    by (simp add: padded_world_def init_state_def)
  have 4: "http_response offline_world (trace init_state)
      (py (base_env ''GENERATION_ENDPOINT'')) (cookies init_state) = ([], RaisesRequestException)"
    by (simp add: offline_world_def init_state_def)
  have blank: "\<forall>c\<in>set [0x20, 0x0A]. isspace c"
    by (simp add: isspace_def)
  have padded: "\<exists>c\<in>set (str '' hello ''). \<not> isspace c"
    by (simp add: str_def isspace_def)
  have "fst (fetch_content not_found_world base_env init_state) = Inr None"
    using fetch_content_cases[where w = not_found_world and env = base_env and st = init_state, OF 1] by simp
  moreover have "fst (fetch_content blank_world base_env init_state) = Inr None"
    using fetch_content_cases[where w = blank_world and env = base_env and st = init_state, OF 2] blank by simp
  moreover have "fst (fetch_content padded_world base_env init_state) = Inr (Some (str ''hello''))"
    using fetch_content_cases[where w = padded_world and env = base_env and st = init_state, OF 3] padded by (simp add: strip_padded)
  moreover have "fst (fetch_content offline_world base_env init_state) = Inr None"
    using fetch_content_cases[where w = offline_world and env = base_env and st = init_state, OF 4] by simp
  ultimately show ?thesis
    by simp
qed

section \<open>Construction\<close>

lemma sublist_join: "k \<in> set xs \<Longrightarrow> sublist k (join sep xs)"
proof (induction sep xs rule: join.induct)
  case (1 sep)
  then show ?case by simp
next
  case (2 sep x)
  then show ?case by simp
next
  case (3 sep x y ys)
  show ?case
  proof (cases "k = x")
    case True
    then show ?thesis by (simp add: sublist_append_rightI)
  next
    case False
    with 3 have "sublist k (join sep (y # ys))" by simp
    then obtain ps ss where "join sep (y # ys) = ps @ k @ ss" by (auto simp: sublist_def)
    then have "join sep (x # y # ys) = (x @ sep @ ps) @ k @ ss" by simp
    then show ?thesis unfolding sublist_def by blast
  qed
qed

text \<open>
  Claim C7.  When at least one of the five required keys is absent from the environment
  or empty, constructing the poster raises \<open>ValueError\<close> before anything else happens
  (the state is untouched: no directory is made, no browser launched).  The message is
  the fixed prefix followed by all missing keys, in the order of \<open>required_vars\<close> and
  separated by commas, so every missing key occurs in it.
\<close>

theorem missing_env_vars_named:
  assumes "\<exists>k\<in>set required_vars. env k = None \<or> env k = Some []"
  shows "\<exists>msg. ContentPoster w env st = (Inl (ValueError msg), st) \<and>
      msg = ''Missing required environment variables: '' @
            join '', '' (filter (\<lambda>k. env k = None \<or> env k = Some []) required_vars) \<and>
      (\<forall>k\<in>set required_vars. env k = None \<or> env k = Some [] \<longrightarrow> sublist k msg)"
proof -
  let ?missing = "filter (\<lambda>k. env k = None \<or> env k = Some []) required_vars"
  let ?msg = "''Missing required environment variables: '' @ join '', '' ?missing"
  have f: "filter (\<lambda>var. \<not> truthy (env var)) required_vars = ?missing"
    by (rule filter_cong) (auto simp: truthy_def split: option.splits)
  from assms have ne: "?missing \<noteq> []"
    by (auto simp: filter_empty_conv)
  have "validate_env_vars env = Inl (ValueError ?msg)"
    using ne by (simp add: validate_env_vars_def f Let_def)
  then have "ContentPoster w env st = (Inl (ValueError ?msg), st)"
    by (simp add: ContentPoster_def seq_lift)
  moreover have "\<forall>k\<in>set required_vars. env k = None \<or> env k = Some [] \<longrightarrow> sublist k ?msg"
  proof (intro ballI impI)
    fix k assume "k \<in> set required_vars" "env k = None \<or> env k = Some []"
    then have "k \<in> set ?missing" by simp
    then have "sublist k (join '', '' ?missing)" by (rule sublist_join)
    then obtain ps ss where "join '', '' ?missing = ps @ k @ ss" by (auto simp: sublist_def)
    then have "?msg = (''Missing required environment variables: '' @ ps) @ k @ ss" by simp
    then show "sublist k ?msg" unfolding sublist_def by blast
  qed
  ultimately show ?thesis by blast
qed

theorem missing_env_vars_named_witness:
  "ContentPoster happy_world incomplete_env init_state =
     (Inl (ValueError ''Missing required environment variables: EMAIL, PASSWORD''), init_state) \<and>
   sublist ''EMAIL'' ''Missing required environment variables: EMAIL, PASSWORD'' \<and>
   sublist ''PASSWORD'' ''Missing required environment variables: EMAIL, PASSWORD''"
proof -
  have h: "\<exists>k\<in>set required_vars. incomplete_env k = None \<or> incomplete_env k = Some []"
    by (simp add: required_vars_def incomplete_env_def)
  have m: "filter (\<lambda>k. incomplete_env k = None \<or> incomplete_env k = Some []) required_vars =
      [''EMAIL'', ''PASSWORD'']"
    by (simp add: required_vars_def incomplete_env_def base_env_def str_def)
  have e: "''EMAIL'' \<in> set required_vars" "incomplete_env ''EMAIL'' = None"
    by (simp_all add: required_vars_def incomplete_env_def)
  have pw: "''PASSWORD'' \<in> set required_vars" "incomplete_env ''PASSWORD'' = Some []"
    by (simp_all add: required_vars_def incomplete_env_def)
  from missing_env_vars_named[where env = incomplete_env and w = happy_world and st = init_state, OF h]
  obtain msg where a: "ContentPoster happy_world incomplete_env init_state =
        (Inl (ValueError msg), init_state)"
    and b: "msg = ''Missing required environment variables: '' @
            join '', '' (filter (\<lambda>k. incomplete_env k = None \<or> incomplete_env k = Some [])
              required_vars)"
    and c: "\<forall>k\<in>set required_vars.
        incomplete_env k = None \<or> incomplete_env k = Some [] \<longrightarrow> sublist k msg"
    by blast
  from b have msg: "msg = ''Missing required environment variables: EMAIL, PASSWORD''"
    by (simp add: m)
  from c e have "sublist ''EMAIL'' msg" by blast
  moreover from c pw have "sublist ''PASSWORD'' msg" by blast
  ultimately show ?thesis
    using a msg by simp
qed

section \<open>The driver \<open>main\<close>\<close>

text \<open>
  The trace only grows, and \<open>run\<close> always begins with the navigation to the login
  page, so a state that \<open>run\<close> has left shows that it was invoked.
\<close>

lemma extends_return: "extends (return x)"
  by (simp add: extends_def return_def)

lemma extends_lift: "extends (lift r)"
  by (simp add: extends_def lift_def)

lemma extends_call: "extends (call w a)"
  by (simp add: extends_def call_def)

lemma extends_get_cookies: "extends (get_cookies w)"
  by (simp add: extends_def get_cookies_def)

lemma extends_store_cookies: "extends (store_cookies cs)"
  by (simp add: extends_def store_cookies_def)

lemma extends_session_get: "extends (session_get w url)"
  by (simp add: extends_def session_get_def split: prod.splits http_outcome.splits)

lemma extends_time_sleep: "extends (time_sleep secs)"
  by (simp add: extends_def time_sleep_def)

lemma extends_andthen:
  assumes "extends m" and "\<And>x. extends (f x)"
  shows "extends (andthen m f)"
proof -
  have "prefix (trace st) (trace (snd (andthen m f st)))" for st
  proof (cases "m st")
    case (Pair r st')
    from assms(1) Pair have p: "prefix (trace st) (trace st')"
      by (auto simp: extends_def dest: spec[of _ st])
    show ?thesis
    proof (cases r)
      case (Inl e)
      with Pair p show ?thesis by (simp add: andthen_def)
    next
      case (Inr x)
      from assms(2)[of x] have "prefix (trace st') (trace (snd (f x st')))"
        by (simp add: extends_def)
      with p Pair Inr show ?thesis
        by (simp add: andthen_def)
    qed
  qed
  then show ?thesis by (simp add: extends_def)
qed

lemma extends_seq: "extends m \<Longrightarrow> extends k \<Longrightarrow> extends (seq m k)"
  by (simp add: seq_def extends_andthen)

lemma snd_except_Exception: "snd (except_Exception m st) = snd (m st)"
  by (simp add: except_Exception_def split: prod.splits sum.splits)

lemma snd_except_RequestException: "snd (except_RequestException m st) = snd (m st)"
  by (simp add: except_RequestException_def split: prod.splits sum.splits)

lemma extends_except_Exception: "extends m \<Longrightarrow> extends (except_Exception m)"
  by (simp add: extends_def snd_except_Exception)

lemma extends_except_RequestException: "extends m \<Longrightarrow> extends (except_RequestException m)"
  by (simp add: extends_def snd_except_RequestException)

lemmas extends_intros =
  extends_return extends_lift extends_call extends_get_cookies extends_store_cookies
  extends_session_get extends_andthen extends_seq extends_except_Exception
  extends_except_RequestException

lemma extends_login: "extends (login w env)"
  unfolding login_def by (intro extends_intros)

lemma extends_fetch_content: "extends (fetch_content w env)"
  unfolding fetch_content_def
  by (intro extends_intros) (auto simp: Let_def intro!: extends_intros)

lemma extends_post: "extends (post_content_to_platform w env content)"
proof -
  have "prefix (trace st) (trace (snd (post_content_to_platform w env content st)))" for st
  proof (cases "cookies st = []")
    case True
    then show ?thesis by (simp add: post_content_to_platform_def)
  next
    case False
    have "extends (except_Exception
          (seq (call w (Get (py (env ''PLATFORM_POST_URL''))))
          (seq (call w (Wait Clickable NewTopicButton 10))
          (seq (call w (Click NewTopicButton))
          (seq (call w (Wait Visibility TitleInput 10))
          (andthen (lift (json_loads content)) (\<lambda>content_data.
           seq (lift (getitem content_data (str ''topic'')))
          (seq (lift (getitem content_data (str ''forumPost'')))
          (seq (call w (Clear TitleInput))
          (andthen (lift (getitem content_data (str ''topic''))) (\<lambda>topic.
           seq (call w (SendKeys TitleInput topic))
          (seq (call w (Wait Visibility CategoryDropdown 10))
          (seq (call w (Click CategoryDropdown))
          (seq (call w (Wait Visibility SRFCOption 10))
          (seq (call w (Click SRFCOption))
          (seq (call w (Wait Visibility BodyInput 300))
          (seq (call w (Clear BodyInput))
          (andthen (lift (getitem content_data (str ''forumPost''))) (\<lambda>forumPost.
           seq (call w (SendKeys BodyInput forumPost))
          (seq (call w (Wait Clickable CreateTopicButton 10))
          (seq (call w (Click CreateTopicButton))
               (return True))))))))))))))))))))))"
      by (intro extends_intros)
    with False show ?thesis by (simp add: post_content_to_platform_def extends_def)
  qed
  then show ?thesis by (simp add: extends_def)
qed

lemma extends_run: "extends (run w env)"
  unfolding run_def
  by (intro extends_intros extends_login) (auto intro!: extends_intros extends_fetch_content extends_post)

lemma begins_seq_call:
  assumes "extends k"
  shows "begins_with (seq (call w a) k) a"
proof -
  have "\<exists>b evs. trace (snd (seq (call w a) k st)) = trace st @ (a, b) # evs" for st
  proof (cases "succeeds w (trace st) a")
    case False
    then show ?thesis by (auto simp: seq_call)
  next
    case True
    from assms obtain zs where
      "trace (snd (k (st\<lparr>trace := trace st @ [(a, True)]\<rparr>))) = (trace st @ [(a, True)]) @ zs"
      by (auto simp: extends_def prefix_def dest: spec[of _ "st\<lparr>trace := trace st @ [(a, True)]\<rparr>"])
    with True show ?thesis by (auto simp: seq_call)
  qed
  then show ?thesis by (simp add: begins_with_def)
qed

lemma begins_except_Exception: "begins_with m a \<Longrightarrow> begins_with (except_Exception m) a"
  by (simp add: begins_with_def snd_except_Exception)

lemma begins_andthen:
  assumes "begins_with m a" and "\<And>x. extends (f x)"
  shows "begins_with (andthen m f) a"
proof -
  have "\<exists>b evs. trace (snd (andthen m f st)) = trace st @ (a, b) # evs" for st
  proof (cases "m st")
    case (Pair r st')
    from assms(1) Pair obtain b evs where p: "trace st' = trace st @ (a, b) # evs"
      by (auto simp: begins_with_def dest: spec[of _ st])
    show ?thesis
    proof (cases r)
      case (Inl e)
      with Pair p show ?thesis by (simp add: andthen_def)
    next
      case (Inr x)
      from assms(2)[of x] obtain zs where "trace (snd (f x st')) = trace st' @ zs"
        by (auto simp: extends_def prefix_def)
      with p Pair Inr show ?thesis
        by (simp add: andthen_def)
    qed
  qed
  then show ?thesis by (simp add: begins_with_def)
qed

lemma login_begins: "begins_with (login w env) (Get (py (env ''LOGIN_URL'')))"
  unfolding login_def
  by (intro begins_except_Exception begins_seq_call extends_intros)

lemma run_begins: "begins_with (run w env) (Get (py (env ''LOGIN_URL'')))"
  unfolding run_def
  by (intro begins_andthen login_begins) (auto intro!: extends_intros extends_fetch_content extends_post)

lemma try_run_eq: "try_run w env st = (Inr (), snd (run w env st))"
  by (simp add: try_run_def split: prod.splits sum.splits)

lemma cycle_eq:
  assumes "0 \<le> secs" and "secs * 10 ^ 9 \<le> 2 ^ 63 - 1"
  shows "seq (try_run w env) (time_sleep secs) st =
     (Inr (), (snd (run w env st))\<lparr>trace := trace (snd (run w env st)) @ [(Sleep secs, True)]\<rparr>)"
proof -
  from assms have "\<not> (secs * 10 ^ 9 > 2 ^ 63 - 1 \<or> secs * 10 ^ 9 < - (2 ^ 63))"
    by simp
  moreover from assms(1) have "\<not> secs < 0" by simp
  ultimately show ?thesis
    by (simp add: seq_def andthen_def try_run_eq time_sleep_def)
qed

lemma funpow_shift: "(f ^^ k) (f x) = (f ^^ Suc k) x"
  by (simp add: funpow_swap1)

lemma loop_continues:
  assumes "0 \<le> n * 60 * 60" and "n * 60 * 60 * 10 ^ 9 \<le> 2 ^ 63 - 1"
  shows "loop w env n k st =
     (StillLooping,
      ((\<lambda>s. (snd (run w env s))\<lparr>trace := trace (snd (run w env s)) @ [(Sleep (n * 60 * 60), True)]\<rparr>) ^^ k) st)"
proof -
  define f where
    "f = (\<lambda>s. (snd (run w env s))\<lparr>trace := trace (snd (run w env s)) @ [(Sleep (n * 60 * 60), True)]\<rparr>)"
  have c: "seq (try_run w env) (time_sleep (n * 60 * 60)) s = (Inr (), f s)" for s
    unfolding f_def by (rule cycle_eq[OF assms])
  have "loop w env n k st = (StillLooping, (f ^^ k) st)"
  proof (induction k arbitrary: st)
    case 0
    show ?case by simp
  next
    case (Suc k)
    have "loop w env n (Suc k) st = loop w env n k (f st)"
      by (simp only: loop.simps c prod.case sum.case)
    also have "\<dots> = (StillLooping, (f ^^ k) (f st))"
      by (rule Suc.IH)
    finally show ?case
      by (simp only: funpow_shift)
  qed
  then show ?thesis
    unfolding f_def .
qed

lemma ContentPoster_base:
  "(\<forall>k\<in>set required_vars. env k = base_env k) \<Longrightarrow> succeeds w [] Mkdtemp \<Longrightarrow>
   succeeds w [(Mkdtemp, True)] Launch \<Longrightarrow>
   ContentPoster w env init_state = (Inr (), constructed_state)"
  by (simp add: ContentPoster_def validate_env_vars_def required_vars_def base_env_def truthy_def
      str_def seq_lift seq_call init_state_def constructed_state_def)

lemma run_login_false: "fst (login w env st) = Inr False \<Longrightarrow> fst (run w env st) = Inr False"
  by (cases "login w env st") (simp add: run_def andthen_def return_def)

lemma run_login_false_state:
  "fst (login w env st) = Inr False \<Longrightarrow> snd (run w env st) = snd (login w env st)"
  by (cases "login w env st") (simp add: run_def andthen_def return_def)

lemma run_fetch_raises:
  "fst (login w env st) = Inr True \<Longrightarrow>
   fst (fetch_content w env (snd (login w env st))) = Inl e \<Longrightarrow> fst (run w env st) = Inl e"
  by (cases "login w env st"; cases "fetch_content w env (snd (login w env st))")
     (simp add: run_def andthen_def return_def)

lemma run_posts:
  "fst (login w env st) = Inr True \<Longrightarrow>
   fst (fetch_content w env (snd (login w env st))) = Inr (Some c) \<Longrightarrow> c \<noteq> [] \<Longrightarrow>
   fst (post_content_to_platform w env c (snd (fetch_content w env (snd (login w env st))))) = Inr b \<Longrightarrow>
   fst (run w env st) = Inr b"
  by (cases "login w env st"; cases "fetch_content w env (snd (login w env st))";
      cases "post_content_to_platform w env c (snd (fetch_content w env (snd (login w env st))))")
     (simp add: run_def andthen_def return_def truthy_def)

lemma login_no_marker_state:
  "snd (login no_marker_world env st) =
     st\<lparr>trace := trace st @
       [(Get (py (env ''LOGIN_URL'')), True),
        (Wait Visibility LoginAccountName 10, True),
        (Wait Visibility LoginAccountPassword 10, True),
        (Wait Clickable LoginButton 10, True),
        (SendKeys LoginAccountName (py (env ''EMAIL'')), True),
        (SendKeys LoginAccountPassword (py (env ''PASSWORD'')), True),
        (Click LoginButton, True),
        (Wait Presence LoginMarker 10, False)]\<rparr>"
  by (simp add: login_def except_Exception_def step_simps no_marker_world_def happy_world_def)

lemma login_raising: "fst (login raising_world env st) = Inr True"
  by (simp add: login_def except_Exception_def step_simps raising_world_def happy_world_def)

lemma fetch_raising: "fst (fetch_content raising_world env st) = Inl OtherException"
  by (simp add: fetch_simps raising_world_def happy_world_def)

lemma run_happy: "cookies st = [] \<Longrightarrow> fst (run happy_world env st) = Inr True"
  by (rule run_posts[where c = example_content])
     (simp_all add: login_happy fetch_happy example_content_nonempty post_happy
        fetch_happy_cookies login_happy_cookies)

lemma run_no_marker: "fst (run no_marker_world env st) = Inr False"
  by (simp add: run_login_false login_no_marker)

lemma run_raising: "fst (run raising_world env st) = Inl OtherException"
  by (simp add: run_fetch_raises login_raising fetch_raising)

lemma ascii_int_examples:
  "ascii_int (str ''abc'') = None" "ascii_int [] = None"
  "ascii_int (str ''-1'') = Some (- 1)" "ascii_int (str ''6'') = Some 6"
  by code_simp+

lemma constructed:
  "ContentPoster happy_world base_env init_state = (Inr (), constructed_state)"
  "ContentPoster no_marker_world base_env init_state = (Inr (), constructed_state)"
  "ContentPoster raising_world base_env init_state = (Inr (), constructed_state)"
  "ContentPoster happy_world (base_env(''POSTING_INTERVAL'' \<mapsto> v)) init_state = (Inr (), constructed_state)"
  "ContentPoster no_marker_world (base_env(''POSTING_INTERVAL'' \<mapsto> v)) init_state = (Inr (), constructed_state)"
  "ContentPoster raising_world (base_env(''POSTING_INTERVAL'' \<mapsto> v)) init_state = (Inr (), constructed_state)"
  by (rule ContentPoster_base; simp add: required_vars_def happy_world_def no_marker_world_def raising_world_def)+

text \<open>
  Claim C9.  When \<open>POSTING_INTERVAL\<close> is not set and the poster has been constructed,
  \<open>main\<close> ends with \<open>exit(0)\<close> in the state that one invocation of \<open>run\<close> leaves
  when started in the state after construction, and that state shows the invocation: its
  trace continues with the navigation to the login page.  Nothing is assumed about the
  result of \<open>run\<close>: it may return true, return false or raise.
\<close>

theorem single_run_exits_zero:
  assumes "env ''POSTING_INTERVAL'' = None"
    and "ContentPoster w env init_state = (Inr (), st0)"
  shows "main w env cycles = (Exited 0, snd (run w env st0)) \<and>
    (\<exists>b evs. trace (snd (run w env st0)) = trace st0 @ (Get (py (env ''LOGIN_URL'')), b) # evs)"
  using assms run_begins[of w env] by (simp add: main_def truthy_def try_run_eq begins_with_def)

theorem single_run_exits_zero_witness:
  "main happy_world base_env 0 = (Exited 0, snd (run happy_world base_env constructed_state)) \<and>
   fst (run happy_world base_env constructed_state) = Inr True \<and>
   main no_marker_world base_env 0 = (Exited 0, snd (run no_marker_world base_env constructed_state)) \<and>
   fst (run no_marker_world base_env constructed_state) = Inr False \<and>
   main raising_world base_env 0 = (Exited 0, snd (run raising_world base_env constructed_state)) \<and>
   fst (run raising_world base_env constructed_state) = Inl OtherException"
proof -
  have h: "base_env ''POSTING_INTERVAL'' = None"
    by (simp add: base_env_def)
  from single_run_exits_zero[OF h constructed(1)] single_run_exits_zero[OF h constructed(2)]
    single_run_exits_zero[OF h constructed(3)]
  show ?thesis
    by (simp add: run_happy run_no_marker run_raising constructed_state_def)
qed

text \<open>
  Claim C10, as amended.  When \<open>POSTING_INTERVAL\<close> is set to a string that is not
  empty and on which \<open>int\<close> raises, and the poster has been constructed, \<open>main\<close> ends
  with the uncaught \<open>ValueError\<close> of \<open>int\<close> in the state after construction: no login,
  fetch or post was attempted.  The claim as written also covers the empty string, which
  is a value and no integer; there the condition \<open>if posting_interval\<close> is false and
  \<open>main\<close> makes a single run and exits with status 0, as the counterexample shows.
\<close>

theorem invalid_interval_raises:
  assumes "env ''POSTING_INTERVAL'' = Some v" and "v \<noteq> []" and "int_of_str w v = None"
    and "ContentPoster w env init_state = (Inr (), st0)"
  shows "main w env cycles = (Uncaught (ValueError_int v), st0)"
  using assms by (simp add: main_def truthy_def)

theorem invalid_interval_raises_witness:
  "main happy_world (base_env(''POSTING_INTERVAL'' \<mapsto> str ''abc'')) (Suc 0) =
     (Uncaught (ValueError_int (str ''abc'')), constructed_state)"
proof -
  have 1: "(base_env(''POSTING_INTERVAL'' \<mapsto> str ''abc'')) ''POSTING_INTERVAL'' = Some (str ''abc'')"
    by simp
  have 2: "str ''abc'' \<noteq> []" by (simp add: str_def)
  have 3: "int_of_str happy_world (str ''abc'') = None"
    by (simp add: happy_world_def ascii_int_examples)
  from invalid_interval_raises[OF 1 2 3 constructed(4)] show ?thesis .
qed

theorem empty_interval_counterexample:
  "(base_env(''POSTING_INTERVAL'' \<mapsto> [])) ''POSTING_INTERVAL'' = Some [] \<and>
   int_of_str happy_world [] = None \<and>
   main happy_world (base_env(''POSTING_INTERVAL'' \<mapsto> [])) (Suc 0) =
     (Exited 0, snd (run happy_world (base_env(''POSTING_INTERVAL'' \<mapsto> [])) constructed_state)) \<and>
   fst (run happy_world (base_env(''POSTING_INTERVAL'' \<mapsto> [])) constructed_state) = Inr True"
proof -
  have i: "int_of_str happy_world [] = None"
    by (simp add: happy_world_def ascii_int_examples)
  have c: "cookies constructed_state = []"
    by (simp add: constructed_state_def)
  show ?thesis
    by (simp add: i main_def constructed truthy_def try_run_eq run_happy[OF c])
qed

text \<open>
  Claim C8, as amended.  When \<open>POSTING_INTERVAL\<close> is set to a non-empty string that
  \<open>int\<close> reads as \<open>n\<close>, with \<open>n\<close> hours a length \<open>time.sleep\<close> accepts (not
  negative, and within 64 bits as nanoseconds), and the poster has been constructed, then
  for every number of cycles the loop is still running after that many cycles, and each
  cycle was a \<open>run\<close>, whatever it returned or raised, followed by a sleep of
  \<open>n * 60 * 60\<close> seconds.  The claim as written covers every configured interval; with
  \<open>-1\<close> the call \<open>time.sleep(-3600)\<close> after the first cycle raises \<open>ValueError\<close>
  outside the \<open>try\<close> block and the process ends, as the counterexample shows.
\<close>

theorem interval_loop_continues:
  assumes "env ''POSTING_INTERVAL'' = Some v" and "v \<noteq> []" and "int_of_str w v = Some n"
    and "0 \<le> n * 60 * 60" and "n * 60 * 60 * 10 ^ 9 \<le> 2 ^ 63 - 1"
    and "ContentPoster w env init_state = (Inr (), st0)"
  shows "main w env cycles =
     (StillLooping,
      ((\<lambda>s. (snd (run w env s))\<lparr>trace := trace (snd (run w env s)) @ [(Sleep (n * 60 * 60), True)]\<rparr>) ^^ cycles) st0)"
proof -
  have "main w env cycles = loop w env n cycles st0"
    using assms(1,2,3,6) by (simp add: main_def truthy_def)
  with loop_continues[OF assms(4,5)] show ?thesis
    by simp
qed

theorem interval_loop_continues_witness:
  "fst (main no_marker_world (base_env(''POSTING_INTERVAL'' \<mapsto> str ''6'')) (Suc (Suc 0))) =
     StillLooping \<and>
   fst (run no_marker_world (base_env(''POSTING_INTERVAL'' \<mapsto> str ''6'')) constructed_state) =
     Inr False \<and>
   filter (\<lambda>e. fst e = Sleep 21600)
     (trace (snd (main no_marker_world (base_env(''POSTING_INTERVAL'' \<mapsto> str ''6''))
                    (Suc (Suc 0))))) =
     [(Sleep 21600, True), (Sleep 21600, True)] \<and>
   fst (main raising_world (base_env(''POSTING_INTERVAL'' \<mapsto> str ''6'')) (Suc (Suc 0))) =
     StillLooping \<and>
   fst (run raising_world (base_env(''POSTING_INTERVAL'' \<mapsto> str ''6'')) constructed_state) =
     Inl OtherException"
proof -
  let ?env = "base_env(''POSTING_INTERVAL'' \<mapsto> str ''6'')"
  have 1: "?env ''POSTING_INTERVAL'' = Some (str ''6'')" by simp
  have 2: "str ''6'' \<noteq> []" by (simp add: str_def)
  have 3: "int_of_str no_marker_world (str ''6'') = Some 6"
    "int_of_str raising_world (str ''6'') = Some 6"
    by (simp_all add: no_marker_world_def raising_world_def happy_world_def ascii_int_examples)
  have 4: "(0::int) \<le> 6 * 60 * 60" by simp
  have 5: "(6::int) * 60 * 60 * 10 ^ 9 \<le> 2 ^ 63 - 1" by simp
  note a = interval_loop_continues[OF 1 2 3(1) 4 5 constructed(5)]
  note b = interval_loop_continues[OF 1 2 3(2) 4 5 constructed(6)]
  have s: "snd (run no_marker_world ?env st) = snd (login no_marker_world ?env st)" for st
    by (simp add: run_login_false_state login_no_marker)
  have c: "filter (\<lambda>e. fst e = Sleep 21600) (trace constructed_state) = []"
    by (simp add: constructed_state_def)
  show ?thesis
    by (simp add: a b run_no_marker run_raising s login_no_marker_state c)
qed

theorem negative_interval_counterexample:
  "int_of_str no_marker_world (str ''-1'') = Some (- 1) \<and>
   fst (run no_marker_world (base_env(''POSTING_INTERVAL'' \<mapsto> str ''-1'')) constructed_state) =
     Inr False \<and>
   main no_marker_world (base_env(''POSTING_INTERVAL'' \<mapsto> str ''-1'')) (Suc (Suc 0)) =
     (Uncaught ValueError_sleep,
      snd (run no_marker_world (base_env(''POSTING_INTERVAL'' \<mapsto> str ''-1'')) constructed_state))"
proof -
  have i: "int_of_str no_marker_world (str ''-1'') = Some (- 1)"
    by (simp add: no_marker_world_def happy_world_def ascii_int_examples)
  have t: "truthy (Some (str ''-1''))"
    by (simp add: truthy_def str_def)
  show ?thesis
    using i t
    by (simp add: main_def constructed seq_def andthen_def try_run_eq time_sleep_def run_no_marker)
qed

end
